theory Spec2Isabelle
  imports Main "HOL-Library.Char_ord" "HOL-Library.List_Lexorder" "HOL-Library.AList"
begin

section \<open>The lesson catalog (dsai_management.py, Data Models)\<close>

text \<open>
  The dataclasses \<^verbatim>\<open>Lesson\<close> and \<^verbatim>\<open>LessonMetadata\<close> are records with the fields and
  the field order of the source. The fields carry the types of their annotations
  (\<^verbatim>\<open>str\<close>, \<^verbatim>\<open>bool\<close>, \<^verbatim>\<open>List[str]\<close>).
\<close>

record Lesson =
  folder :: string
  name :: string
  number :: string
  source_repo :: string
  added_date :: string
  last_synced :: string
  description :: string
  module :: string
  has_custom_changes :: bool

record LessonMetadata =
  lessons :: "Lesson list"
  last_updated :: string
  version :: string
  preservation_patterns :: "string list"

text \<open>
  The catalog file is read with \<^verbatim>\<open>json.load\<close> and written with \<^verbatim>\<open>json.dump\<close>. A file is
  modelled by the JSON document it holds: \<^verbatim>\<open>json.load\<close> of what \<^verbatim>\<open>json.dump\<close> wrote gives
  the dumped value back for values built from \<^verbatim>\<open>str\<close>, \<^verbatim>\<open>bool\<close>, \<^verbatim>\<open>list\<close> and
  \<^verbatim>\<open>dict\<close> with string keys, which is all that \<^verbatim>\<open>save\<close> writes. A \<^verbatim>\<open>dict\<close> is an
  association list read with \<^const>\<open>map_of\<close>.
\<close>

datatype json =
  JNull | JBool bool | JNum int | JStr string | JArr "json list" | JObj "(string \<times> json) list"

text \<open>What a path names for \<^verbatim>\<open>open\<close>: no file, a file that is not JSON, or a JSON document.\<close>

datatype stored = Absent | Unparsable | Holds json

text \<open>
  The exceptions that leave \<^verbatim>\<open>load\<close> and the matcher. \<open>Untyped\<close> is not a Python
  exception: it marks a document whose value at a field is not of the field's annotated
  type. Python builds the object all the same (a dataclass does not check annotations);
  such an object is no value of the records above.
\<close>

datatype error =
  JSONDecodeError | AttributeError | TypeError | NotImplementedError | ValueError | Untyped

definition bind :: "error + 'a \<Rightarrow> ('a \<Rightarrow> error + 'b) \<Rightarrow> error + 'b" where
  "bind r f = (case r of Inl e \<Rightarrow> Inl e | Inr x \<Rightarrow> f x)"

fun as_str :: "json \<Rightarrow> error + string" where
  "as_str (JStr s) = Inr s"
| "as_str _ = Inl Untyped"

fun as_bool :: "json \<Rightarrow> error + bool" where
  "as_bool (JBool b) = Inr b"
| "as_bool _ = Inl Untyped"

fun collect :: "('a \<Rightarrow> error + 'b) \<Rightarrow> 'a list \<Rightarrow> error + 'b list" where
  "collect f [] = Inr []"
| "collect f (x # xs) = bind (f x) (\<lambda>y. bind (collect f xs) (\<lambda>ys. Inr (y # ys)))"

fun as_str_list :: "json \<Rightarrow> error + string list" where
  "as_str_list (JArr js) = collect as_str js"
| "as_str_list _ = Inl Untyped"

text \<open>\<^verbatim>\<open>d.get(key, default)\<close> on a dict.\<close>

definition get :: "(string \<times> json) list \<Rightarrow> string \<Rightarrow> json \<Rightarrow> json" where
  "get d k dflt = (case map_of d k of None \<Rightarrow> dflt | Some v \<Rightarrow> v)"

definition Lesson_fields :: "string list" where
  "Lesson_fields = [''folder'', ''name'', ''number'', ''source_repo'', ''added_date'',
     ''last_synced'', ''description'', ''module'', ''has_custom_changes'']"

text \<open>
  \<^verbatim>\<open>Lesson(**lesson_data)\<close>: the argument must be a mapping, and its keys exactly the nine
  fields (none has a default), else \<^verbatim>\<open>TypeError\<close>.
\<close>

definition Lesson_of :: "json \<Rightarrow> error + Lesson" where
  "Lesson_of j = (case j of
     JObj d \<Rightarrow>
       if set (map fst d) = set Lesson_fields then
         bind (as_str (get d ''folder'' JNull)) (\<lambda>f.
         bind (as_str (get d ''name'' JNull)) (\<lambda>n.
         bind (as_str (get d ''number'' JNull)) (\<lambda>nu.
         bind (as_str (get d ''source_repo'' JNull)) (\<lambda>s.
         bind (as_str (get d ''added_date'' JNull)) (\<lambda>a.
         bind (as_str (get d ''last_synced'' JNull)) (\<lambda>l.
         bind (as_str (get d ''description'' JNull)) (\<lambda>de.
         bind (as_str (get d ''module'' JNull)) (\<lambda>m.
         bind (as_bool (get d ''has_custom_changes'' JNull)) (\<lambda>h.
           Inr \<lparr>folder = f, name = n, number = nu, source_repo = s, added_date = a,
                last_synced = l, description = de, module = m,
                has_custom_changes = h\<rparr>)))))))))
       else Inl TypeError
   | _ \<Rightarrow> Inl TypeError)"

text \<open>
  The comprehension \<^verbatim>\<open>[Lesson(**lesson_data) for lesson_data in data.get('lessons', [])]\<close>
  iterates whatever the key holds: the items of a list, the keys of a dict, the characters
  of a string (both strings, so \<^verbatim>\<open>**\<close> raises \<^verbatim>\<open>TypeError\<close> at the first one; none when
  empty); anything else is not iterable.
\<close>

fun lessons_of :: "json \<Rightarrow> error + Lesson list" where
  "lessons_of (JArr js) = collect Lesson_of js"
| "lessons_of (JObj d) = (if d = [] then Inr [] else Inl TypeError)"
| "lessons_of (JStr s) = (if s = [] then Inr [] else Inl TypeError)"
| "lessons_of _ = Inl TypeError"

definition load :: "(string \<Rightarrow> stored) \<Rightarrow> string \<Rightarrow> error + LessonMetadata" where
  "load fs filepath = (case fs filepath of
     Absent \<Rightarrow>
       Inr \<lparr>lessons = [], last_updated = '''', version = ''1.0.0'',
            preservation_patterns = []\<rparr>
   | Unparsable \<Rightarrow> Inl JSONDecodeError
   | Holds data \<Rightarrow> (case data of
       JObj d \<Rightarrow>
         bind (lessons_of (get d ''lessons'' (JArr []))) (\<lambda>ls.
         bind (as_str (get d ''last_updated'' (JStr ''''))) (\<lambda>lu.
         bind (as_str (get d ''version'' (JStr ''1.0.0''))) (\<lambda>v.
         bind (as_str_list (get d ''preservation_patterns'' (JArr []))) (\<lambda>ps.
           Inr \<lparr>lessons = ls, last_updated = lu, version = v,
                preservation_patterns = ps\<rparr>))))
     | _ \<Rightarrow> Inl AttributeError))"

text \<open>\<^verbatim>\<open>vars(lesson)\<close>: the instance dictionary, in the order of the fields.\<close>

definition vars :: "Lesson \<Rightarrow> json" where
  "vars l = JObj [(''folder'', JStr (folder l)), (''name'', JStr (name l)),
     (''number'', JStr (number l)), (''source_repo'', JStr (source_repo l)),
     (''added_date'', JStr (added_date l)), (''last_synced'', JStr (last_synced l)),
     (''description'', JStr (description l)), (''module'', JStr (module l)),
     (''has_custom_changes'', JBool (has_custom_changes l))]"

definition save :: "LessonMetadata \<Rightarrow> string \<Rightarrow> (string \<Rightarrow> stored) \<Rightarrow> (string \<Rightarrow> stored)" where
  "save m filepath fs = fs(filepath := Holds (JObj
     [(''lessons'', JArr (map vars (lessons m))),
      (''last_updated'', JStr (last_updated m)),
      (''version'', JStr (version m)),
      (''preservation_patterns'', JArr (map JStr (preservation_patterns m)))]))"

section \<open>The directory tree\<close>

text \<open>
  The file system below the working directory is a tree: a file with its bytes, or a
  directory with its entries in the order in which the directory lists them. A path is
  the list of its segments. There are no symbolic links.
\<close>

datatype node = File string | Dir "(string \<times> node) list"

type_synonym path = "string list"

text \<open>Following a path of entry names.\<close>

fun lookup :: "node \<Rightarrow> path \<Rightarrow> node option" where
  "lookup n [] = Some n"
| "lookup (File c) (x # xs) = None"
| "lookup (Dir es) (x # xs) = (case map_of es x of None \<Rightarrow> None | Some c \<Rightarrow> lookup c xs)"

text \<open>
  Following a path as the operating system does: a segment \<^verbatim>\<open>..\<close> names the parent
  directory (\<open>up\<close> holds the directories above the current one, nearest first), and the
  top of the tree is its own parent, as the root directory is.
\<close>

fun walk :: "node list \<Rightarrow> node \<Rightarrow> path \<Rightarrow> node option" where
  "walk up n [] = Some n"
| "walk up (File c) (x # xs) = None"
| "walk up (Dir es) (x # xs) =
     (if x = ''..'' then (case up of [] \<Rightarrow> walk [] (Dir es) xs | q # up' \<Rightarrow> walk up' q xs)
      else (case map_of es x of None \<Rightarrow> None | Some c \<Rightarrow> walk (Dir es # up) c xs))"

fun isdir :: "node option \<Rightarrow> bool" where
  "isdir (Some (Dir es)) = True"
| "isdir _ = False"

fun isfile :: "node option \<Rightarrow> bool" where
  "isfile (Some (File c)) = True"
| "isfile _ = False"

text \<open>\<^verbatim>\<open>Path.exists\<close>, \<^verbatim>\<open>Path.is_dir\<close> and \<^verbatim>\<open>Path.is_file\<close> of a path below the working directory.\<close>

definition path_exists :: "node \<Rightarrow> path \<Rightarrow> bool" where
  "path_exists t p = (walk [] t p \<noteq> None)"

definition is_dir :: "node \<Rightarrow> path \<Rightarrow> bool" where
  "is_dir t p = isdir (walk [] t p)"

definition is_file :: "node \<Rightarrow> path \<Rightarrow> bool" where
  "is_file t p = isfile (walk [] t p)"

section \<open>Strings and path names\<close>

fun split_on :: "char \<Rightarrow> string \<Rightarrow> string list" where
  "split_on d [] = [[]]"
| "split_on d (c # cs) =
     (if c = d then [] # split_on d cs
      else (case split_on d cs of [] \<Rightarrow> [[c]] | w # ws \<Rightarrow> (c # w) # ws))"

fun join :: "string \<Rightarrow> string list \<Rightarrow> string" where
  "join sep [] = []"
| "join sep [w] = w"
| "join sep (w # v # ws) = w @ sep @ join sep (v # ws)"

fun starts_with :: "string \<Rightarrow> string \<Rightarrow> bool" where
  "starts_with [] s = True"
| "starts_with (p # ps) [] = False"
| "starts_with (p # ps) (c # cs) = (p = c \<and> starts_with ps cs)"

text \<open>\<^verbatim>\<open>sub in s\<close>.\<close>

fun contains :: "string \<Rightarrow> string \<Rightarrow> bool" where
  "contains sub [] = (sub = [])"
| "contains sub (c # cs) = (starts_with sub (c # cs) \<or> contains sub cs)"

text \<open>\<^verbatim>\<open>s.endswith('/')\<close> and \<^verbatim>\<open>s.rstrip('/')\<close>.\<close>

definition endswith_sep :: "string \<Rightarrow> bool" where
  "endswith_sep s = (s \<noteq> [] \<and> last s = CHR ''/'')"

definition rstrip_sep :: "string \<Rightarrow> string" where
  "rstrip_sep s = rev (dropWhile (\<lambda>c. c = CHR ''/'') (rev s))"

text \<open>
  The segments of a path name as \<^verbatim>\<open>pathlib\<close> parses it: split at the separator, empty
  segments and \<^verbatim>\<open>.\<close> dropped, \<^verbatim>\<open>..\<close> kept.
\<close>

definition segments :: "string \<Rightarrow> path" where
  "segments s = filter (\<lambda>w. w \<noteq> [] \<and> w \<noteq> ''.'') (split_on (CHR ''/'') s)"

text \<open>
  Shell-style matching of a name against a pattern with \<^verbatim>\<open>*\<close> (any run of characters)
  and \<^verbatim>\<open>?\<close> (any one character); every other character stands for itself. This is what
  \<^verbatim>\<open>find -name\<close> does with the patterns of the sync script, none of which has a bracket
  or a backslash.
\<close>

fun glob :: "string \<Rightarrow> string \<Rightarrow> bool" where
  "glob [] [] = True"
| "glob [] (c # cs) = False"
| "glob (p # ps) [] = (p = CHR ''*'' \<and> glob ps [])"
| "glob (p # ps) (c # cs) =
     (if p = CHR ''*'' then glob ps (c # cs) \<or> glob (p # ps) cs
      else (p = CHR ''?'' \<or> p = c) \<and> glob ps cs)"

section \<open>The lesson manager (dsai_management.py, LessonManager)\<close>

text \<open>
  The state of a run: the catalog held in memory (\<^verbatim>\<open>self.metadata\<close>), the JSON files by
  path name, and the directory tree below the working directory.
\<close>

record manager =
  metadata :: LessonMetadata
  files :: "string \<Rightarrow> stored"
  tree :: node

text \<open>\<^verbatim>\<open>Lesson.path\<close> is \<^verbatim>\<open>Path("lessons") / self.folder\<close>, for a relative folder name.\<close>

definition path :: "Lesson \<Rightarrow> path" where
  "path l = ''lessons'' # segments (folder l)"

text \<open>\<^verbatim>\<open>Lesson.exists\<close>: \<^verbatim>\<open>self.path.exists() and self.path.is_dir()\<close>.\<close>

definition exists :: "node \<Rightarrow> Lesson \<Rightarrow> bool" where
  "exists t l = (path_exists t (path l) \<and> is_dir t (path l))"

text \<open>
  What \<^verbatim>\<open>subprocess.run\<close> does with a command line is outside the Python source: the
  process exits with a return code and its captured output, or runs into the timeout, or
  \<^verbatim>\<open>subprocess.run\<close> raises; and the command may have changed the tree. The manager
  takes this as a parameter, together with the date \<^verbatim>\<open>datetime.now().strftime("%Y-%m-%d")\<close>
  at the moment of the call.
\<close>

datatype proc = Exited int string string | TimedOut | Raised string

record env =
  shell :: "string \<Rightarrow> node \<Rightarrow> proc \<times> node"
  now :: string

text \<open>\<^verbatim>\<open>CommandRunner.run\<close>: success is return code 0; a timeout and any exception are failures.\<close>

definition run :: "env \<Rightarrow> string \<Rightarrow> node \<Rightarrow> (bool \<times> string \<times> string) \<times> node" where
  "run e command t = (case shell e command t of
     (Exited returncode out err, t') \<Rightarrow> ((returncode = 0, out, err), t')
   | (TimedOut, t') \<Rightarrow> ((False, [], ''Command timed out after 5 minutes''), t')
   | (Raised msg, t') \<Rightarrow> ((False, [], msg), t'))"

definition run_script :: "env \<Rightarrow> string \<Rightarrow> string list \<Rightarrow> node \<Rightarrow> (bool \<times> string) \<times> node" where
  "run_script e script_path args t =
     (if \<not> path_exists t (segments script_path)
      then ((False, ''Script not found: '' @ script_path), t)
      else (case run e (script_path @ '' '' @ join '' '' args) t of
        ((success, out, err), t') \<Rightarrow> ((success, if success then out else err), t')))"

text \<open>
  \<^verbatim>\<open>LessonManager.sync_lesson\<close>. The argument is a \<^verbatim>\<open>Lesson\<close> object of the catalog, which
  the method mutates through the reference; the model names the object by its position
  \<open>i\<close> in \<^verbatim>\<open>self.metadata.lessons\<close>, so that the catalog saved afterwards holds the new
  date.
\<close>

definition sync_lesson :: "env \<Rightarrow> manager \<Rightarrow> nat \<Rightarrow> manager \<times> (bool \<times> string)" where
  "sync_lesson e m i =
     (let lesson = lessons (metadata m) ! i in
      if \<not> exists (tree m) lesson
      then (m, (False, ''Lesson directory not found: '' @ folder lesson))
      else (case run_script e ''./scripts/sync-lesson.sh'' [folder lesson] (tree m) of
        ((success, output), t') \<Rightarrow>
          if success then
            let md = (metadata m)\<lparr>lessons :=
                       (lessons (metadata m))[i := lesson\<lparr>last_synced := now e\<rparr>]\<rparr>
            in (m\<lparr>metadata := md, files := save md ''lessons-metadata.json'' (files m),
                   tree := t'\<rparr>, (True, output))
          else (m\<lparr>tree := t'\<rparr>, (False, output))))"

text \<open>
  \<^verbatim>\<open>LessonManager.sync_all_lessons\<close>: the loop over \<^verbatim>\<open>self.metadata.lessons\<close> with its two
  counters. \<open>e k\<close> is the environment met by the call for the lesson at position \<open>k\<close>.
\<close>

fun sync_loop :: "(nat \<Rightarrow> env) \<Rightarrow> nat list \<Rightarrow> manager \<Rightarrow> nat \<Rightarrow> nat \<Rightarrow> manager \<times> (nat \<times> nat)" where
  "sync_loop e [] m success_count failed_count = (m, (success_count, failed_count))"
| "sync_loop e (i # rest) m success_count failed_count =
     (case sync_lesson (e i) m i of
        (m', (success, output)) \<Rightarrow>
          if success then sync_loop e rest m' (success_count + 1) failed_count
          else sync_loop e rest m' success_count (failed_count + 1))"

definition sync_all_lessons :: "(nat \<Rightarrow> env) \<Rightarrow> manager \<Rightarrow> manager \<times> (nat \<times> nat)" where
  "sync_all_lessons e m = sync_loop e [0 ..< length (lessons (metadata m))] m 0 0"

text \<open>
  The reading of the specification: \<^verbatim>\<open>syncOne\<close> applied to each lesson in turn, each on
  the state the one before left, collecting whether each succeeded.
\<close>

fun sync_each :: "(nat \<Rightarrow> env) \<Rightarrow> nat list \<Rightarrow> manager \<Rightarrow> manager \<times> bool list" where
  "sync_each e [] m = (m, [])"
| "sync_each e (i # rest) m =
     (case sync_lesson (e i) m i of
        (m', (success, output)) \<Rightarrow>
          (case sync_each e rest m' of (m'', oks) \<Rightarrow> (m'', success # oks)))"

section \<open>The preservation matcher (LessonManager.check_custom_changes)\<close>

text \<open>
  \<^verbatim>\<open>Path.rglob\<close> belongs to Python's \<^verbatim>\<open>pathlib\<close>, not to the repository. It is modelled
  as CPython 3.8 to 3.12 implement it: the pattern is parsed into segments, \<^verbatim>\<open>**\<close> is put
  in front, and a chain of selectors, one for each segment, walks the tree. The matching
  of one name against one segment with wildcards is \<^verbatim>\<open>fnmatch\<close>; it is the parameter
  \<open>fnm\<close> (pattern first, then name) of everything below.
\<close>

definition is_wildcard_pattern :: "string \<Rightarrow> bool" where
  "is_wildcard_pattern pat = (CHR ''*'' \<in> set pat \<or> CHR ''?'' \<in> set pat \<or> CHR ''['' \<in> set pat)"

text \<open>
  The directories at and below a directory, each before the ones inside it, as paths
  from \<open>p\<close> (the recursive-wildcard selector's \<^verbatim>\<open>_iterate_directories\<close>).
\<close>

fun dirs_below :: "path \<Rightarrow> node \<Rightarrow> path list"
  and dirs_in :: "path \<Rightarrow> (string \<times> node) list \<Rightarrow> path list" where
  "dirs_below p (File c) = []"
| "dirs_below p (Dir es) = p # dirs_in p es"
| "dirs_in p [] = []"
| "dirs_in p ((n, c) # es) = dirs_below (p @ [n]) c @ dirs_in p es"

text \<open>Dropping the repetitions of a list, the first occurrence staying where it is.\<close>

definition dedup :: "'a list \<Rightarrow> 'a list" where
  "dedup xs = rev (remdups (rev xs))"

text \<open>
  The selectors. No segment left: the path itself. \<^verbatim>\<open>**\<close>: the rest of the pattern from
  every directory at or below the path, a path yielded once. A segment with a wildcard:
  the entries of the directory whose name matches (directories only, when segments
  follow). Any other segment: the entry of that name, when it exists (and is a directory,
  when segments follow).
\<close>

fun select :: "(string \<Rightarrow> string \<Rightarrow> bool) \<Rightarrow> node \<Rightarrow> string list \<Rightarrow> path \<Rightarrow> path list" where
  "select fnm t [] p = [p]"
| "select fnm t (part # rest) p =
     (if part = ''**'' then
        (case walk [] t p of
           None \<Rightarrow> []
         | Some d \<Rightarrow> dedup (concat (map (\<lambda>q. select fnm t rest (p @ q)) (dirs_below [] d))))
      else if is_wildcard_pattern part then
        (case walk [] t p of
           Some (Dir es) \<Rightarrow>
             concat (map (\<lambda>e. if (rest = [] \<or> isdir (Some (snd e))) \<and> fnm part (fst e)
                               then select fnm t rest (p @ [fst e]) else []) es)
         | _ \<Rightarrow> [])
      else if (if rest = [] then path_exists t (p @ [part]) else is_dir t (p @ [part]))
        then select fnm t rest (p @ [part])
      else [])"

text \<open>
  \<^verbatim>\<open>root.rglob(pattern)\<close>: a pattern with a root raises \<^verbatim>\<open>NotImplementedError\<close>, a segment
  that holds \<^verbatim>\<open>**\<close> and more raises \<^verbatim>\<open>ValueError\<close>, both before anything is yielded.
\<close>

definition rglob :: "(string \<Rightarrow> string \<Rightarrow> bool) \<Rightarrow> node \<Rightarrow> path \<Rightarrow> string \<Rightarrow> error + path list" where
  "rglob fnm t root pattern =
     (if starts_with ''/'' pattern then Inl NotImplementedError
      else if \<exists>part \<in> set (segments pattern). part \<noteq> ''**'' \<and> contains ''**'' part
        then Inl ValueError
      else Inr (if is_dir t root then select fnm t (''**'' # segments pattern) root else []))"

text \<open>\<^verbatim>\<open>str(item.relative_to(root))\<close> for an item that \<^verbatim>\<open>root.rglob\<close> yielded.\<close>

definition relative_to :: "path \<Rightarrow> path \<Rightarrow> string" where
  "relative_to root item =
     (let q = drop (length root) item in if q = [] then ''.'' else join ''/'' q)"

text \<open>The loop over the patterns, \<open>custom_files\<close> being the list built so far.\<close>

fun custom_loop :: "(string \<Rightarrow> string \<Rightarrow> bool) \<Rightarrow> node \<Rightarrow> path \<Rightarrow> string list \<Rightarrow> string list
    \<Rightarrow> error + string list" where
  "custom_loop fnm t root [] custom_files = Inr custom_files"
| "custom_loop fnm t root (pattern # patterns) custom_files =
     (if endswith_sep pattern then
        (case rglob fnm t root (rstrip_sep pattern) of
           Inl err \<Rightarrow> Inl err
         | Inr items \<Rightarrow> custom_loop fnm t root patterns
             (custom_files @ map (relative_to root) (filter (is_dir t) items)))
      else
        (case rglob fnm t root pattern of
           Inl err \<Rightarrow> Inl err
         | Inr items \<Rightarrow> custom_loop fnm t root patterns
             (custom_files @ map (relative_to root) (filter (is_file t) items))))"

definition check_custom_changes ::
    "(string \<Rightarrow> string \<Rightarrow> bool) \<Rightarrow> manager \<Rightarrow> Lesson \<Rightarrow> error + string list" where
  "check_custom_changes fnm m lesson =
     (if \<not> exists (tree m) lesson then Inr []
      else custom_loop fnm (tree m) (path lesson) (preservation_patterns (metadata m)) [])"

subsection \<open>What the matcher is to compute\<close>

text \<open>
  A well-formed tree: the names in a directory are distinct, and each is a file name
  (not empty, not \<^verbatim>\<open>.\<close> or \<^verbatim>\<open>..\<close>, no separator).
\<close>

definition entry_name :: "string \<Rightarrow> bool" where
  "entry_name n = (n \<noteq> [] \<and> n \<noteq> ''.'' \<and> n \<noteq> ''..'' \<and> CHR ''/'' \<notin> set n)"

fun well_formed :: "node \<Rightarrow> bool" where
  "well_formed (File c) = True"
| "well_formed (Dir es) = (distinct (map fst es) \<and> (\<forall>e \<in> set es. entry_name (fst e) \<and> well_formed (snd e)))"

text \<open>
  The node at the path of entry names \<open>q\<close> below the directory that \<open>root\<close> names.
\<close>

definition under :: "node \<Rightarrow> path \<Rightarrow> path \<Rightarrow> node option" where
  "under t root q = (case walk [] t root of None \<Rightarrow> None | Some r \<Rightarrow> lookup r q)"

text \<open>
  A pattern of one segment: not empty, no separator, neither \<^verbatim>\<open>.\<close> nor \<^verbatim>\<open>..\<close>, and
  \<^verbatim>\<open>**\<close> nowhere in it.
\<close>

definition simple :: "string \<Rightarrow> bool" where
  "simple pat = (pat \<noteq> [] \<and> CHR ''/'' \<notin> set pat \<and> pat \<noteq> ''.'' \<and> pat \<noteq> ''..''
     \<and> \<not> contains ''**'' pat)"

text \<open>
  A name matches a one-segment pattern: by \<^verbatim>\<open>fnmatch\<close> when the pattern has a wildcard
  character, else when it is the pattern.
\<close>

definition name_matches :: "(string \<Rightarrow> string \<Rightarrow> bool) \<Rightarrow> string \<Rightarrow> string \<Rightarrow> bool" where
  "name_matches fnm pat n = (if is_wildcard_pattern pat then fnm pat n else n = pat)"

text \<open>
  The reading of the specification: a pattern with a trailing separator matches the
  directories below the root whose name matches it (the separators taken off), any other
  pattern the files below the root whose name matches it, at any depth. \<open>q\<close> is the path
  relative to the root.
\<close>

definition matches :: "(string \<Rightarrow> string \<Rightarrow> bool) \<Rightarrow> node \<Rightarrow> path \<Rightarrow> string \<Rightarrow> path \<Rightarrow> bool" where
  "matches fnm t root pattern q =
     (q \<noteq> [] \<and>
      (if endswith_sep pattern
       then isdir (under t root q) \<and> name_matches fnm (rstrip_sep pattern) (last q)
       else isfile (under t root q) \<and> name_matches fnm pattern (last q)))"

text \<open>
  Two listings of one tree: the same names in every directory, in any order, and under
  each name the same file or, again, two listings of one directory.
\<close>

fun same :: "node \<Rightarrow> node \<Rightarrow> bool" where
  "same (File c) (File c') = (c = c')"
| "same (Dir es) (Dir es') =
     (fst ` set es = fst ` set es' \<and>
      (\<forall>e \<in> set es. \<forall>e' \<in> set es'. fst e = fst e' \<longrightarrow> same (snd e) (snd e')))"
| "same (File c) (Dir es') = False"
| "same (Dir es) (File c') = False"

section \<open>The sync script (setup_sctp_dsai.py, create_sync_script)\<close>

text \<open>
  \<^verbatim>\<open>create_sync_script\<close> writes \<^verbatim>\<open>scripts/sync-lesson.sh\<close>; the manager runs it. The script is
  bash under \<^verbatim>\<open>set -e\<close>; its function \<^verbatim>\<open>sync_single_lesson\<close> is modelled step by step on
  the directory tree, with the GNU tools it calls (\<^verbatim>\<open>find\<close>, \<^verbatim>\<open>cp\<close>, \<^verbatim>\<open>mkdir\<close>, \<^verbatim>\<open>grep\<close>,
  \<^verbatim>\<open>sed\<close>, \<^verbatim>\<open>rm\<close>) as functions on the tree. A status other than 0 ends the script,
  as \<^verbatim>\<open>set -e\<close> does for a command that is not guarded by \<^verbatim>\<open>|| true\<close>. The lesson folder is
  a relative name without \<^verbatim>\<open>..\<close>.
\<close>

definition PRESERVE_PATTERNS :: "string list" where
  "PRESERVE_PATTERNS = [''*.local.*'', ''*-custom.*'', ''*-notes.*'', ''my-*'', ''custom-*'',
     ''.custom-changes'', ''LESSON_INFO.md'']"

text \<open>
  What the script takes from outside the tree: the result of
  \<^verbatim>\<open>git clone --depth 1 "$SOURCE_REPO" "$TEMP_DIR"\<close> (the entries of the temporary directory
  afterwards, or \<open>None\<close> when the clone fails, which leaves the directory that
  \<^verbatim>\<open>mktemp -d\<close> made empty), and the two outputs of \<^verbatim>\<open>date\<close>.
\<close>

record outside =
  clone :: "string \<Rightarrow> (string \<times> node) list option"
  stamp :: string
  today :: string

text \<open>
  Running \<open>f\<close> on the entries of the directory at a path; \<open>False\<close> and no change when the
  path is not a directory.
\<close>

fun in_dir :: "path \<Rightarrow> ((string \<times> node) list \<Rightarrow> bool \<times> (string \<times> node) list) \<Rightarrow> node \<Rightarrow> bool \<times> node" where
  "in_dir [] f (Dir es) = (case f es of (ok, es') \<Rightarrow> (ok, Dir es'))"
| "in_dir [] f (File c) = (False, File c)"
| "in_dir (x # xs) f (File c) = (False, File c)"
| "in_dir (x # xs) f (Dir es) =
     (case map_of es x of
        None \<Rightarrow> (False, Dir es)
      | Some c \<Rightarrow> (case in_dir xs f c of (ok, c') \<Rightarrow> (ok, Dir (AList.update x c' es))))"

text \<open>\<^verbatim>\<open>mkdir -p\<close>: \<open>None\<close> when a segment of the path is a file.\<close>

fun mkdir_p :: "path \<Rightarrow> node \<Rightarrow> node option" where
  "mkdir_p [] (Dir es) = Some (Dir es)"
| "mkdir_p [] (File c) = None"
| "mkdir_p (x # xs) (File c) = None"
| "mkdir_p (x # xs) (Dir es) =
     (case mkdir_p xs (case map_of es x of None \<Rightarrow> Dir [] | Some c \<Rightarrow> c) of
        None \<Rightarrow> None
      | Some c' \<Rightarrow> Some (Dir (AList.update x c' es)))"

text \<open>
  \<^verbatim>\<open>cp -r\<close> of a node onto what the destination name holds (\<open>None\<close>: nothing), and of a
  list of entries into a directory. A file replaces a file, a directory is merged into a
  directory; a file onto a directory and a directory onto a file are refused, the rest
  is still copied, and the status is a failure (\<open>False\<close>).
\<close>

fun cp_r :: "node \<Rightarrow> node option \<Rightarrow> bool \<times> node"
  and cp_into :: "(string \<times> node) list \<Rightarrow> (string \<times> node) list \<Rightarrow> bool \<times> (string \<times> node) list" where
  "cp_r (File c) None = (True, File c)"
| "cp_r (File c) (Some (File d)) = (True, File c)"
| "cp_r (File c) (Some (Dir ds)) = (False, Dir ds)"
| "cp_r (Dir es) (Some (File d)) = (False, File d)"
| "cp_r (Dir es) None = (case cp_into es [] of (ok, ds') \<Rightarrow> (ok, Dir ds'))"
| "cp_r (Dir es) (Some (Dir ds)) = (case cp_into es ds of (ok, ds') \<Rightarrow> (ok, Dir ds'))"
| "cp_into [] ds = (True, ds)"
| "cp_into ((n, c) # es) ds =
     (case cp_r c (map_of ds n) of
        (ok, c') \<Rightarrow> (case cp_into es (AList.update n c' ds) of
          (oks, ds') \<Rightarrow> (ok \<and> oks, ds')))"

text \<open>
  \<^verbatim>\<open>find p -name pat\<close>: the start path and everything below it whose last segment matches,
  a directory before its entries. The list is taken from the tree as it is when \<^verbatim>\<open>find\<close>
  starts. (The backup directory lies below the start path, so the real \<^verbatim>\<open>find\<close> may walk
  into it while \<^verbatim>\<open>-exec cp\<close> fills it and have the copies copied again, one level deeper
  each time. All of that stays inside the backup directory, and after the restore inside
  \<^verbatim>\<open>lessons/<folder>/lessons\<close>; the model leaves it out, and no statement below is about
  those places but for the first copy of a file.)
\<close>

fun find_name :: "string \<Rightarrow> path \<Rightarrow> node \<Rightarrow> path list"
  and find_names :: "string \<Rightarrow> path \<Rightarrow> (string \<times> node) list \<Rightarrow> path list" where
  "find_name pat p (File c) = (if glob pat (last p) then [p] else [])"
| "find_name pat p (Dir es) = (if glob pat (last p) then [p] else []) @ find_names pat p es"
| "find_names pat p [] = []"
| "find_names pat p ((n, c) # es) = find_name pat (p @ [n]) c @ find_names pat p es"

text \<open>A node without what it holds at a path.\<close>

fun prune :: "path \<Rightarrow> node \<Rightarrow> node" where
  "prune q (File c) = File c"
| "prune [] (Dir es) = Dir es"
| "prune [x] (Dir es) = Dir (filter (\<lambda>e. fst e \<noteq> x) es)"
| "prune (x # y # q) (Dir es) =
     Dir (map (\<lambda>e. if fst e = x then (x, prune (y # q) (snd e)) else e) es)"


text \<open>
  The pipeline \<^verbatim>\<open>grep "Source Repository" LESSON_INFO.md | sed 's/.*: //' | sed 's/\*\*//g'\<close>
  in a command substitution: the lines that hold the words, each cut after its last
  colon-and-space and freed of double asterisks, joined, trailing newlines dropped. A
  missing file gives the empty string.
\<close>

fun after_last :: "string \<Rightarrow> string \<Rightarrow> string option" where
  "after_last sep [] = (if sep = [] then Some [] else None)"
| "after_last sep (c # cs) =
     (case after_last sep cs of
        Some r \<Rightarrow> Some r
      | None \<Rightarrow> if starts_with sep (c # cs) then Some (drop (length sep) (c # cs)) else None)"

fun remove_stars :: "string \<Rightarrow> string" where
  "remove_stars (a # b # cs) =
     (if a = CHR ''*'' \<and> b = CHR ''*'' then remove_stars cs else a # remove_stars (b # cs))"
| "remove_stars cs = cs"

definition rstrip_newlines :: "string \<Rightarrow> string" where
  "rstrip_newlines s = rev (dropWhile (\<lambda>c. c = CHR 0x0A) (rev s))"

definition source_repository :: "node option \<Rightarrow> string" where
  "source_repository f = (case f of
     Some (File content) \<Rightarrow>
       rstrip_newlines (join [CHR 0x0A]
         (map (\<lambda>line. remove_stars (case after_last '': '' line of None \<Rightarrow> line | Some r \<Rightarrow> r))
           (filter (contains ''Source Repository'') (split_on (CHR 0x0A) content))))
   | _ \<Rightarrow> [])"

text \<open>
  \<^verbatim>\<open>sed -i.bak "s/Last Synced.*/Last Synced**: ${CURRENT_DATE}/"\<close> on a line, and on the file
  \<^verbatim>\<open>LESSON_INFO.md\<close> of a directory.
\<close>

fun sed_last_synced :: "string \<Rightarrow> string \<Rightarrow> string" where
  "sed_last_synced d [] = []"
| "sed_last_synced d (c # cs) =
     (if starts_with ''Last Synced'' (c # cs) then ''Last Synced**: '' @ d
      else c # sed_last_synced d cs)"

definition update_sync_date :: "string \<Rightarrow> (string \<times> node) list \<Rightarrow> (string \<times> node) list" where
  "update_sync_date d es = (case map_of es ''LESSON_INFO.md'' of
     Some (File content) \<Rightarrow> AList.update ''LESSON_INFO.md''
       (File (join [CHR 0x0A] (map (sed_last_synced d) (split_on (CHR 0x0A) content)))) es
   | _ \<Rightarrow> es)"

text \<open>
  \<^verbatim>\<open>cp -r --parents src "$BACKUP_DIR/"\<close>: GNU \<^verbatim>\<open>cp\<close> appends the whole source name, as
  \<^verbatim>\<open>find\<close> printed it (it starts with \<^verbatim>\<open>lessons/<folder>\<close>), to the target directory, and
  makes the directories in between. Errors are discarded (\<^verbatim>\<open>2>/dev/null\<close>, \<^verbatim>\<open>|| true\<close>).
  When the source holds the backup directory (the lesson directory itself, or
  \<^verbatim>\<open>.custom-changes\<close>, which the sixth pattern always matches), \<^verbatim>\<open>cp\<close> refuses to copy
  the directory into itself; the model copies the source without the backup directory.
  What \<^verbatim>\<open>cp\<close> leaves of it lies inside the backup directory.
\<close>

definition cp_parents :: "path \<Rightarrow> path \<Rightarrow> node \<Rightarrow> node" where
  "cp_parents src backup_dir t = (case lookup t src of
     None \<Rightarrow> t
   | Some n \<Rightarrow> (case mkdir_p (backup_dir @ butlast src) t of
       None \<Rightarrow> t
     | Some t' \<Rightarrow> snd (in_dir (backup_dir @ butlast src)
         (cp_into [(last src,
            if take (length src) backup_dir = src then prune (drop (length src) backup_dir) n
            else n)]) t')))"

text \<open>One round of the loop \<^verbatim>\<open>for pattern in "${PRESERVE_PATTERNS[@]}"\<close>.\<close>

definition backup_pattern :: "path \<Rightarrow> path \<Rightarrow> string \<Rightarrow> node \<Rightarrow> node" where
  "backup_pattern lesson_path backup_dir pattern t = (case lookup t lesson_path of
     None \<Rightarrow> t
   | Some n \<Rightarrow> fold (\<lambda>src. cp_parents src backup_dir) (find_name pattern lesson_path n) t)"

definition entries :: "node option \<Rightarrow> (string \<times> node) list" where
  "entries n = (case n of Some (Dir es) \<Rightarrow> es | _ \<Rightarrow> [])"

text \<open>
  \<^verbatim>\<open>sync_single_lesson\<close>, in the order of the script: the directory test, the source
  repository, the backup, the clone (whose failure the script does not see: the status
  of the pipeline is that of \<^verbatim>\<open>grep\<close>, and \<^verbatim>\<open>|| true\<close> follows), the removal of all
  top-level entries but \<^verbatim>\<open>.custom-changes\<close> and \<^verbatim>\<open>LESSON_INFO.md\<close>, the copy of the clone, the
  restore \<^verbatim>\<open>cp -r "$BACKUP_DIR"/* "$LESSON_PATH/"\<close> (the shell's \<^verbatim>\<open>*\<close> skips hidden names),
  the new date in \<^verbatim>\<open>LESSON_INFO.md\<close>, and \<^verbatim>\<open>rm -f\<close> of the \<^verbatim>\<open>.bak\<close> file. (Should upstream
  ship a directory of that name, \<^verbatim>\<open>sed -i.bak\<close> cannot write its backup and changes nothing,
  and \<^verbatim>\<open>rm -f\<close> fails, which ends the script.)
\<close>

definition sync_single_lesson :: "outside \<Rightarrow> string \<Rightarrow> node \<Rightarrow> int \<times> node" where
  "sync_single_lesson w LESSON_FOLDER t =
     (let LESSON_PATH = ''lessons'' # segments LESSON_FOLDER in
      if \<not> is_dir t LESSON_PATH then (1, t)
      else let SOURCE_REPO = source_repository (lookup t (LESSON_PATH @ [''LESSON_INFO.md'']))
      in if SOURCE_REPO = [] then (1, t)
      else let BACKUP_DIR = LESSON_PATH @ [''.custom-changes'', ''backup-'' @ stamp w]
      in (case mkdir_p BACKUP_DIR t of
        None \<Rightarrow> (1, t)
      | Some t1 \<Rightarrow>
          let t2 = fold (backup_pattern LESSON_PATH BACKUP_DIR) PRESERVE_PATTERNS t1;
              TEMP_DIR = filter (\<lambda>e. fst e \<noteq> ''.git'')
                (case clone w SOURCE_REPO of None \<Rightarrow> [] | Some es \<Rightarrow> es);
              t3 = snd (in_dir LESSON_PATH (\<lambda>es. (True,
                     filter (\<lambda>e. fst e = ''.custom-changes'' \<or> fst e = ''LESSON_INFO.md'') es)) t2)
          in (case in_dir LESSON_PATH (cp_into TEMP_DIR) t3 of
            (copied, t4) \<Rightarrow>
              if \<not> copied then (1, t4)
              else let t5 = snd (in_dir LESSON_PATH
                       (cp_into (filter (\<lambda>e. \<not> starts_with ''.'' (fst e))
                          (entries (lookup t4 BACKUP_DIR)))) t4)
              in if isdir (lookup t5 (LESSON_PATH @ [''LESSON_INFO.md.bak''])) then (1, t5)
                 else (0, snd (in_dir LESSON_PATH
                   (\<lambda>es. (True, filter (\<lambda>e. fst e \<noteq> ''LESSON_INFO.md.bak'')
                      (update_sync_date (today w) es))) t5)))))"

text \<open>The loop of \<^verbatim>\<open>--all\<close> over \<^verbatim>\<open>lessons/*/\<close>, which \<^verbatim>\<open>set -e\<close> ends at the first failure.\<close>

fun sync_folders :: "outside \<Rightarrow> string list \<Rightarrow> node \<Rightarrow> int \<times> node" where
  "sync_folders w [] t = (0, t)"
| "sync_folders w (LESSON_NAME # rest) t =
     (case sync_single_lesson w LESSON_NAME t of
        (status, t') \<Rightarrow> if status \<noteq> 0 then (status, t') else sync_folders w rest t')"

text \<open>
  The body of the script after the function, on its arguments. The shell expands
  \<^verbatim>\<open>lessons/*/\<close> to the directories with a name that is not hidden, sorted (here: by
  their bytes).
\<close>

definition script_main :: "outside \<Rightarrow> string list \<Rightarrow> node \<Rightarrow> int \<times> node" where
  "script_main w args t = (case args of
     [] \<Rightarrow> (1, t)
   | a # rest \<Rightarrow>
       if a = ''--all''
       then sync_folders w (sort (map fst (filter (\<lambda>e. \<not> starts_with ''.'' (fst e) \<and> isdir (Some (snd e)))
              (entries (lookup t [''lessons'']))))) t
       else sync_single_lesson w a t)"

text \<open>
  The environment of the manager in which the command line runs this script: the shell
  splits the line at blanks. \<open>console\<close> is what the run prints on standard output and
  standard error, which the model does not compute.
\<close>

definition script_env :: "outside \<Rightarrow> string \<times> string \<Rightarrow> string \<Rightarrow> env" where
  "script_env w console d = \<lparr>shell = (\<lambda>command t.
       (case filter (\<lambda>a. a \<noteq> []) (split_on (CHR '' '') command) of
          [] \<Rightarrow> (Exited 0 [] [], t)
        | prog # args \<Rightarrow>
            if prog = ''./scripts/sync-lesson.sh''
            then (case script_main w args t of
                    (status, t') \<Rightarrow> (Exited status (fst console) (snd console), t'))
            else (Exited 127 [] [], t))),
     now = d\<rparr>"

section \<open>Example states\<close>

definition example_lesson :: "string \<Rightarrow> string \<Rightarrow> Lesson" where
  "example_lesson f d = \<lparr>folder = f, name = f, number = ''1_1'',
     source_repo = ''https://example.org/'' @ f @ ''.git'', added_date = ''2026-01-01'',
     last_synced = d, description = [], module = ''1'', has_custom_changes = False\<rparr>"

definition example_catalog :: "Lesson list \<Rightarrow> string list \<Rightarrow> LessonMetadata" where
  "example_catalog ls ps = \<lparr>lessons = ls, last_updated = [], version = ''1.0.0'',
     preservation_patterns = ps\<rparr>"

definition example_info :: string where
  "example_info = ''- **Source Repository**: https://example.org/l1.git'' @ [CHR 0x0A] @
     ''- **Last Synced**: 2026-01-01'' @ [CHR 0x0A]"

text \<open>
  A working directory with the sync script and two lesson directories, \<^verbatim>\<open>l1\<close> (the
  scenario of the specification) and \<^verbatim>\<open>l3\<close> (empty); there is no directory \<^verbatim>\<open>l2\<close>.
\<close>

definition example_tree :: node where
  "example_tree = Dir
     [(''scripts'', Dir [(''sync-lesson.sh'', File [])]),
      (''lessons'', Dir
        [(''l1'', Dir
           [(''LESSON_INFO.md'', File example_info),
            (''intro.ipynb'', File ''old''),
            (''intro.local.ipynb'', File ''mine''),
            (''notes-personal'', Dir [(''todo.md'', File ''todo'')])]),
         (''l3'', Dir [])])]"

text \<open>
  What the upstream repository of \<^verbatim>\<open>l1\<close> ships, and the two worlds outside: one in which
  the clone succeeds, one in which every clone fails.
\<close>

definition example_upstream :: "string \<Rightarrow> (string \<times> node) list option" where
  "example_upstream url =
     (if url = ''https://example.org/l1.git''
      then Some [(''.git'', Dir []), (''intro.ipynb'', File ''new''),
                 (''intro.local.ipynb'', File ''theirs''), (''solutions.ipynb'', File ''sol'')]
      else None)"

definition example_online :: outside where
  "example_online = \<lparr>clone = example_upstream, stamp = ''20261104-101500'',
     today = ''2026-11-04''\<rparr>"

definition example_offline :: outside where
  "example_offline = \<lparr>clone = (\<lambda>url. None), stamp = ''20261104-101500'',
     today = ''2026-11-04''\<rparr>"

definition example_manager :: "string \<Rightarrow> string list \<Rightarrow> manager" where
  "example_manager d ps = \<lparr>metadata = example_catalog
       [example_lesson ''l1'' d, example_lesson ''l2'' d, example_lesson ''l3'' d] ps,
     files = (\<lambda>p. Absent), tree = example_tree\<rparr>"

text \<open>An environment in which the script fails for \<^verbatim>\<open>l3\<close> and succeeds otherwise, on date \<open>d\<close>.\<close>

definition example_env :: "string \<Rightarrow> env" where
  "example_env d = \<lparr>shell = (\<lambda>command t.
       if command = ''./scripts/sync-lesson.sh l3'' then (Exited 1 [] ''failed'', t)
       else (Exited 0 ''done'' [], t)),
     now = d\<rparr>"

text \<open>The same working directory with every directory listed in the opposite order.\<close>

definition example_tree_relisted :: node where
  "example_tree_relisted = Dir
     [(''lessons'', Dir
        [(''l3'', Dir []),
         (''l1'', Dir
           [(''notes-personal'', Dir [(''todo.md'', File ''todo'')]),
            (''intro.local.ipynb'', File ''mine''),
            (''intro.ipynb'', File ''old''),
            (''LESSON_INFO.md'', File example_info)])]),
      (''scripts'', Dir [(''sync-lesson.sh'', File [])])]"

section \<open>Loading and saving the catalog\<close>

lemma Lesson_of_vars: "Lesson_of (vars l) = Inr l"
  by (simp add: Lesson_of_def vars_def Lesson_fields_def get_def bind_def)

lemma collect_Lesson_of_vars: "collect Lesson_of (map vars ls) = Inr ls"
  by (induction ls) (simp_all add: Lesson_of_vars bind_def)

lemma collect_as_str_JStr: "collect as_str (map JStr ps) = Inr ps"
  by (induction ps) (simp_all add: bind_def)

text \<open>
  C9. When the metadata file does not exist, \<^verbatim>\<open>load\<close> returns the default catalog (no
  lessons, empty last-updated string, version 1.0.0, no preservation patterns) and raises
  nothing.
\<close>

theorem load_missing_file_default:
  assumes "fs filepath = Absent"
  shows "load fs filepath =
    Inr \<lparr>lessons = [], last_updated = '''', version = ''1.0.0'', preservation_patterns = []\<rparr>"
  using assms by (simp add: load_def)

theorem load_missing_file_default_witness:
  "(\<lambda>p. Absent) ''lessons-metadata.json'' = Absent \<and>
   load (\<lambda>p. Absent) ''lessons-metadata.json'' =
    Inr \<lparr>lessons = [], last_updated = '''', version = ''1.0.0'', preservation_patterns = []\<rparr>"
  using load_missing_file_default [of "\<lambda>p. Absent" "''lessons-metadata.json''"] by simp

text \<open>
  C10. Saving a catalog to a file and loading that file gives the catalog back, whatever
  its lessons, version, last-updated string and preservation patterns are.
\<close>

theorem save_load_roundtrip: "load (save m filepath fs) filepath = Inr m"
  by (simp add: load_def save_def get_def bind_def collect_Lesson_of_vars collect_as_str_JStr)

section \<open>Syncing one lesson\<close>

text \<open>
  C3. When the lesson's directory does not exist, \<^verbatim>\<open>sync_lesson\<close> returns failure with
  the diagnostic "Lesson directory not found" at once: the catalog in memory, the saved
  files and the directory tree are what they were.
\<close>

theorem sync_lesson_missing_directory:
  assumes "\<not> exists (tree m) (lessons (metadata m) ! i)"
  shows "sync_lesson e m i =
    (m, (False, ''Lesson directory not found: '' @ folder (lessons (metadata m) ! i)))"
  using assms by (simp add: sync_lesson_def)

theorem sync_lesson_missing_directory_witness:
  "\<not> exists (tree (example_manager ''2026-11-01'' []))
       (lessons (metadata (example_manager ''2026-11-01'' [])) ! 1) \<and>
   sync_lesson (example_env ''2026-11-04'') (example_manager ''2026-11-01'' []) 1 =
     (example_manager ''2026-11-01'' [], (False, ''Lesson directory not found: l2''))"
proof -
  have h: "\<not> exists (tree (example_manager ''2026-11-01'' []))
       (lessons (metadata (example_manager ''2026-11-01'' [])) ! 1)"
    by code_simp
  have f: "folder (lessons (metadata (example_manager ''2026-11-01'' [])) ! 1) = ''l2''"
    by code_simp
  show ?thesis
    using h sync_lesson_missing_directory [OF h, of "example_env ''2026-11-04''"] f by simp
qed

lemma load_save: "load (save md p fs) p = Inr md"
  by (simp add: load_def save_def get_def bind_def collect_Lesson_of_vars collect_as_str_JStr)

text \<open>
  C4, as the code has it. A sync that succeeds sets the lesson's \<^verbatim>\<open>last_synced\<close> to the
  current date, leaves every other lesson as it was, and saves the catalog (loading the
  saved file gives the catalog in memory). A sync that fails leaves the catalog and the
  saved files unchanged. The date never decreases provided the current date is not
  earlier than the stored one; dates are compared as Python compares the strings.
\<close>

theorem sync_lesson_last_synced:
  assumes "i < length (lessons (metadata m))"
    and "sync_lesson e m i = (m', (success, output))"
  shows "(if success
          then lessons (metadata m') =
                 (lessons (metadata m))[i := (lessons (metadata m) ! i)\<lparr>last_synced := now e\<rparr>]
               \<and> load (files m') ''lessons-metadata.json'' = Inr (metadata m')
          else metadata m' = metadata m \<and> files m' = files m)
         \<and> (last_synced (lessons (metadata m) ! i) \<le> now e \<longrightarrow>
              last_synced (lessons (metadata m) ! i) \<le> last_synced (lessons (metadata m') ! i))"
  using assms
  by (auto simp: sync_lesson_def Let_def load_save split: if_splits prod.splits)

theorem sync_lesson_last_synced_witness:
  "0 < length (lessons (metadata (example_manager ''2026-11-01'' []))) \<and>
   fst (snd (sync_lesson (example_env ''2026-11-04'') (example_manager ''2026-11-01'' []) 0)) \<and>
   last_synced (lessons (metadata (example_manager ''2026-11-01'' [])) ! 0) \<le> ''2026-11-04'' \<and>
   last_synced (lessons (metadata (example_manager ''2026-11-01'' [])) ! 0)
     \<le> last_synced (lessons (metadata (fst (sync_lesson (example_env ''2026-11-04'')
           (example_manager ''2026-11-01'' []) 0))) ! 0)"
proof -
  have n: "0 < length (lessons (metadata (example_manager ''2026-11-01'' [])))"
    by (simp add: example_manager_def example_catalog_def)
  have ok: "fst (snd (sync_lesson (example_env ''2026-11-04'')
      (example_manager ''2026-11-01'' []) 0))"
    by code_simp
  have le: "last_synced (lessons (metadata (example_manager ''2026-11-01'' [])) ! 0)
      \<le> now (example_env ''2026-11-04'')"
    by code_simp
  have d: "now (example_env ''2026-11-04'') = ''2026-11-04''"
    by (simp add: example_env_def)
  have r: "sync_lesson (example_env ''2026-11-04'') (example_manager ''2026-11-01'' []) 0 =
      (fst (sync_lesson (example_env ''2026-11-04'') (example_manager ''2026-11-01'' []) 0),
       (fst (snd (sync_lesson (example_env ''2026-11-04'')
          (example_manager ''2026-11-01'' []) 0)),
        snd (snd (sync_lesson (example_env ''2026-11-04'')
          (example_manager ''2026-11-01'' []) 0))))"
    by simp
  show ?thesis
    using sync_lesson_last_synced [OF n r] n ok le d by simp
qed

text \<open>
  C4 as stated fails: the code stamps the current date without comparing it with the
  stored one. Stored date 2026-11-05, a successful sync on 2026-11-04: the date decreases.
\<close>

theorem last_synced_decreases:
  "last_synced (lessons (metadata (fst (sync_lesson (example_env ''2026-11-04'')
       (example_manager ''2026-11-05'' []) 0))) ! 0)
   < last_synced (lessons (metadata (example_manager ''2026-11-05'' [])) ! 0)"
  by code_simp

text \<open>
  C1 fails on the code. The lesson \<^verbatim>\<open>l1\<close> has \<^verbatim>\<open>intro.local.ipynb\<close>, which matches the
  preserved pattern \<^verbatim>\<open>*.local.*\<close>, and upstream ships a file of the same name. The sync
  succeeds, and the lesson directory then holds upstream's bytes at that path: the backup
  was written under \<^verbatim>\<open>$BACKUP_DIR/lessons/l1/\<close> (\<^verbatim>\<open>cp --parents\<close> keeps the whole source
  name), so the restore \<^verbatim>\<open>cp -r "$BACKUP_DIR"/* "$LESSON_PATH/"\<close> puts the learner's file at
  \<^verbatim>\<open>lessons/l1/lessons/l1/intro.local.ipynb\<close>, not over the fetched one.
\<close>

theorem sync_replaces_preserved_file:
  "glob ''*.local.*'' ''intro.local.ipynb''
   \<and> lookup example_tree [''lessons'', ''l1'', ''intro.local.ipynb''] = Some (File ''mine'')
   \<and> fst (snd (sync_lesson (script_env example_online ([], []) ''2026-11-04'')
         (example_manager ''2026-11-01'' []) 0))
   \<and> lookup (tree (fst (sync_lesson (script_env example_online ([], []) ''2026-11-04'')
         (example_manager ''2026-11-01'' []) 0)))
         [''lessons'', ''l1'', ''intro.local.ipynb''] = Some (File ''theirs'')
   \<and> lookup (tree (fst (sync_lesson (script_env example_online ([], []) ''2026-11-04'')
         (example_manager ''2026-11-01'' []) 0)))
         [''lessons'', ''l1'', ''lessons'', ''l1'', ''intro.local.ipynb''] = Some (File ''mine'')"
  by code_simp

text \<open>
  C2 fails on the code. The clone of the source of \<^verbatim>\<open>l1\<close> fails. The script goes on (the
  failure is hidden by the pipeline into \<^verbatim>\<open>grep\<close> and by \<^verbatim>\<open>|| true\<close>), removes the
  lesson's files, copies the empty temporary directory and exits with status 0; the
  manager then records the sync as a success and stamps \<^verbatim>\<open>last_synced\<close>.
\<close>

theorem failed_fetch_empties_lesson:
  "clone example_offline
     (source_repository (lookup example_tree [''lessons'', ''l1'', ''LESSON_INFO.md''])) = None
   \<and> lookup example_tree [''lessons'', ''l1'', ''intro.ipynb''] = Some (File ''old'')
   \<and> fst (snd (sync_lesson (script_env example_offline ([], []) ''2026-11-04'')
         (example_manager ''2026-11-01'' []) 0))
   \<and> lookup (tree (fst (sync_lesson (script_env example_offline ([], []) ''2026-11-04'')
         (example_manager ''2026-11-01'' []) 0)))
         [''lessons'', ''l1'', ''intro.ipynb''] = None
   \<and> lookup (tree (fst (sync_lesson (script_env example_offline ([], []) ''2026-11-04'')
         (example_manager ''2026-11-01'' []) 0)))
         [''lessons'', ''l1'', ''intro.local.ipynb''] = None
   \<and> last_synced (lessons (metadata (example_manager ''2026-11-01'' [])) ! 0) = ''2026-11-01''
   \<and> last_synced (lessons (metadata (fst (sync_lesson
         (script_env example_offline ([], []) ''2026-11-04'')
         (example_manager ''2026-11-01'' []) 0))) ! 0) = ''2026-11-04''"
  by code_simp

section \<open>Syncing all lessons\<close>

lemma sync_loop_each:
  "sync_loop e is m sc fc =
     (case sync_each e is m of
        (m', oks) \<Rightarrow> (m', (sc + length (filter id oks), fc + length (filter Not oks))))"
  by (induction "is" arbitrary: m sc fc) (auto split: prod.splits)

lemma sync_each_length: "length (snd (sync_each e is m)) = length is"
proof (induction "is" arbitrary: m)
  case Nil
  show ?case by simp
next
  case (Cons i rest)
  obtain m' ok out where s: "sync_lesson (e i) m i = (m', (ok, out))"
    by (metis prod_cases3)
  obtain m'' oks where r: "sync_each e rest m' = (m'', oks)"
    by (metis surj_pair)
  from Cons.IH [of m'] r have "length oks = length rest" by simp
  with s r show ?case by simp
qed

text \<open>
  C5. \<^verbatim>\<open>sync_all_lessons\<close> is \<^verbatim>\<open>sync_lesson\<close> applied to the lessons of the catalog in order,
  each on the state the one before left; a failure does not stop the loop (there is one
  outcome for every lesson), and the pair returned counts the lessons whose sync
  succeeded and those whose sync failed.
\<close>

theorem sync_all_lessons_counts:
  "sync_all_lessons e m =
     (case sync_each e [0 ..< length (lessons (metadata m))] m of
        (m', oks) \<Rightarrow> (m', (length (filter id oks), length (filter Not oks))))
   \<and> length (snd (sync_each e [0 ..< length (lessons (metadata m))] m))
       = length (lessons (metadata m))"
  by (simp add: sync_all_lessons_def sync_loop_each sync_each_length)

theorem sync_all_lessons_counts_witness:
  "snd (sync_all_lessons (\<lambda>k. example_env ''2026-11-04'') (example_manager ''2026-11-01'' []))
     = (1, 2)
   \<and> snd (sync_each (\<lambda>k. example_env ''2026-11-04'') [0 ..< 3]
        (example_manager ''2026-11-01'' [])) = [True, False, False]"
proof -
  have n: "length (lessons (metadata (example_manager ''2026-11-01'' []))) = 3"
    by (simp add: example_manager_def example_catalog_def)
  have oks: "snd (sync_each (\<lambda>k. example_env ''2026-11-04'') [0 ..< 3]
        (example_manager ''2026-11-01'' [])) = [True, False, False]"
    by code_simp
  show ?thesis
    using sync_all_lessons_counts [of "\<lambda>k. example_env ''2026-11-04''"
        "example_manager ''2026-11-01'' []"] n oks
    by (simp add: split_beta)
qed

section \<open>The preservation matcher\<close>

text \<open>
  C7. When the lesson's directory does not exist, \<^verbatim>\<open>check_custom_changes\<close> returns the
  empty list, whatever the patterns are, and raises nothing.
\<close>

theorem check_custom_changes_missing_directory:
  assumes "\<not> exists (tree m) lesson"
  shows "check_custom_changes fnm m lesson = Inr []"
  using assms by (simp add: check_custom_changes_def)

theorem check_custom_changes_missing_directory_witness:
  "\<not> exists (tree (example_manager ''2026-11-01'' [''*.local.*'', ''notes-*/'']))
       (example_lesson ''l2'' ''2026-11-01'') \<and>
   check_custom_changes glob (example_manager ''2026-11-01'' [''*.local.*'', ''notes-*/''])
       (example_lesson ''l2'' ''2026-11-01'') = Inr []"
proof -
  have h: "\<not> exists (tree (example_manager ''2026-11-01'' [''*.local.*'', ''notes-*/'']))
       (example_lesson ''l2'' ''2026-11-01'')"
    by code_simp
  show ?thesis
    using h check_custom_changes_missing_directory [OF h, of glob] by simp
qed

subsection \<open>Paths and directories\<close>

lemma walk_lookup: "''..'' \<notin> set p \<Longrightarrow> walk up t p = lookup t p"
proof (induction p arbitrary: up t)
  case Nil
  show ?case by simp
next
  case (Cons x xs)
  then show ?case by (cases t) (auto split: option.splits)
qed

lemma walk_append:
  "''..'' \<notin> set q \<Longrightarrow>
   walk up t (p @ q) = (case walk up t p of None \<Rightarrow> None | Some r \<Rightarrow> lookup r q)"
proof (induction p arbitrary: up t)
  case Nil
  then show ?case by (simp add: walk_lookup)
next
  case (Cons x xs)
  show ?case
  proof (cases t)
    case (File c)
    then show ?thesis by simp
  next
    case (Dir es)
    then show ?thesis using Cons by (auto split: option.splits list.splits)
  qed
qed

lemma lookup_append:
  "lookup t (p @ q) = (case lookup t p of None \<Rightarrow> None | Some r \<Rightarrow> lookup r q)"
proof (induction p arbitrary: t)
  case Nil
  show ?case by simp
next
  case (Cons x xs)
  then show ?case by (cases t) (auto split: option.splits)
qed

lemma wf_child: "well_formed (Dir es) \<Longrightarrow> map_of es x = Some c \<Longrightarrow> well_formed c"
  by (auto dest: map_of_SomeD)

lemma wf_walk: "well_formed t \<Longrightarrow> \<forall>u \<in> set up. well_formed u \<Longrightarrow> walk up t p = Some r \<Longrightarrow> well_formed r"
proof (induction p arbitrary: up t)
  case Nil
  then show ?case by simp
next
  case (Cons x xs)
  show ?case
  proof (cases t)
    case (File c)
    with Cons.prems show ?thesis by simp
  next
    case (Dir es)
    show ?thesis
    proof (cases "x = ''..''")
      case True
      show ?thesis
      proof (cases up)
        case Nil
        with Cons.prems Dir True have "walk [] (Dir es) xs = Some r" by simp
        with Cons.IH [of "Dir es" "[]"] Cons.prems(1) Dir show ?thesis by simp
      next
        case (Cons u up')
        with Cons.prems Dir True have "walk up' u xs = Some r" by simp
        moreover have "well_formed u" "\<forall>v \<in> set up'. well_formed v" using Cons.prems(2) Cons by auto
        ultimately show ?thesis using Cons.IH by blast
      qed
    next
      case False
      with Cons.prems Dir obtain c where c: "map_of es x = Some c" "walk (Dir es # up) c xs = Some r"
        by (auto split: option.splits)
      have "well_formed c" using wf_child c(1) Cons.prems(1) Dir by blast
      moreover have "\<forall>v \<in> set (Dir es # up). well_formed v" using Cons.prems Dir by auto
      ultimately show ?thesis using Cons.IH c(2) by blast
    qed
  qed
qed

lemma lookup_names: "well_formed t \<Longrightarrow> lookup t q = Some r \<Longrightarrow> ''..'' \<notin> set q \<and> well_formed r"
proof (induction q arbitrary: t)
  case Nil
  then show ?case by simp
next
  case (Cons x xs)
  show ?case
  proof (cases t)
    case (File c)
    with Cons.prems show ?thesis by simp
  next
    case (Dir es)
    with Cons.prems obtain c where c: "map_of es x = Some c" "lookup c xs = Some r"
      by (auto split: option.splits)
    have "(x, c) \<in> set es" using c(1) by (rule map_of_SomeD)
    with Cons.prems(1) Dir have "entry_name x" "well_formed c" by auto
    with Cons.IH [of c] c(2) show ?thesis by (auto simp: entry_name_def)
  qed
qed

lemma dirs_below_set:
  "well_formed d \<Longrightarrow> set (dirs_below p d) = {p @ q | q. isdir (lookup d q)}"
  "distinct (map fst es) \<Longrightarrow> \<forall>e \<in> set es. well_formed (snd e) \<Longrightarrow>
     set (dirs_in p es) = {p @ n # q | n q c. map_of es n = Some c \<and> isdir (lookup c q)}"
proof (induction p d and p es rule: dirs_below_dirs_in.induct)
  case (1 p c)
  have "\<And>q. \<not> isdir (lookup (File c) q)"
  proof -
    fix q show "\<not> isdir (lookup (File c) q)" by (cases q) simp_all
  qed
  then show ?case by simp
next
  case (2 p es)
  have IH: "set (dirs_in p es) = {p @ n # q | n q c. map_of es n = Some c \<and> isdir (lookup c q)}"
    using 2 by simp
  have "{p @ q | q. isdir (lookup (Dir es) q)} =
        insert p {p @ n # q | n q c. map_of es n = Some c \<and> isdir (lookup c q)}"
  proof (intro set_eqI iffI)
    fix x assume "x \<in> {p @ q | q. isdir (lookup (Dir es) q)}"
    then obtain q where q: "x = p @ q" "isdir (lookup (Dir es) q)" by blast
    show "x \<in> insert p {p @ n # q | n q c. map_of es n = Some c \<and> isdir (lookup c q)}"
    proof (cases q)
      case Nil
      with q show ?thesis by simp
    next
      case (Cons n q')
      with q(2) obtain c where "map_of es n = Some c" "isdir (lookup c q')"
        by (auto split: option.splits)
      with q(1) Cons show ?thesis by blast
    qed
  next
    fix x assume "x \<in> insert p {p @ n # q | n q c. map_of es n = Some c \<and> isdir (lookup c q)}"
    then consider "x = p" | n q c where "x = p @ n # q" "map_of es n = Some c" "isdir (lookup c q)"
      by blast
    then show "x \<in> {p @ q | q. isdir (lookup (Dir es) q)}"
    proof cases
      case 1
      have "isdir (lookup (Dir es) [])" by simp
      with 1 show ?thesis by force
    next
      case 2
      then have "isdir (lookup (Dir es) (n # q))" by simp
      with 2(1) show ?thesis by blast
    qed
  qed
  with IH show ?case by simp
next
  case (3 p)
  show ?case by simp
next
  case (4 p n c es)
  have nf: "n \<notin> fst ` set es" using 4 by simp
  have a: "set (dirs_below (p @ [n]) c) = {(p @ [n]) @ q | q. isdir (lookup c q)}"
    using 4 by simp
  have b: "set (dirs_in p es) = {p @ m # q | m q c'. map_of es m = Some c' \<and> isdir (lookup c' q)}"
    using 4 by simp
  have none: "map_of es n = None" using nf by (simp add: map_of_eq_None_iff)
  show ?case
  proof (intro set_eqI iffI)
    fix x assume "x \<in> set (dirs_in p ((n, c) # es))"
    then consider "x \<in> set (dirs_below (p @ [n]) c)" | "x \<in> set (dirs_in p es)" by auto
    then show "x \<in> {p @ m # q | m q c'. map_of ((n, c) # es) m = Some c' \<and> isdir (lookup c' q)}"
    proof cases
      case 1
      with a obtain q where "x = p @ n # q" "isdir (lookup c q)" by auto
      then show ?thesis by force
    next
      case 2
      with b obtain m q c' where m: "x = p @ m # q" "map_of es m = Some c'" "isdir (lookup c' q)"
        by blast
      with none have "m \<noteq> n" by auto
      with m show ?thesis by force
    qed
  next
    fix x assume "x \<in> {p @ m # q | m q c'. map_of ((n, c) # es) m = Some c' \<and> isdir (lookup c' q)}"
    then obtain m q c' where m: "x = p @ m # q" "map_of ((n, c) # es) m = Some c'"
      "isdir (lookup c' q)" by blast
    show "x \<in> set (dirs_in p ((n, c) # es))"
    proof (cases "m = n")
      case True
      with m have "x \<in> {(p @ [n]) @ q | q. isdir (lookup c q)}" by auto
      with a show ?thesis by simp
    next
      case False
      with m have "x \<in> {p @ m # q | m q c'. map_of es m = Some c' \<and> isdir (lookup c' q)}"
        by auto
      with b show ?thesis by simp
    qed
  qed
qed

subsection \<open>One-segment patterns\<close>

lemma segments_simple: "simple pat \<Longrightarrow> segments pat = [pat]"
proof -
  assume s: "simple pat"
  have "\<And>s. CHR ''/'' \<notin> set s \<Longrightarrow> split_on (CHR ''/'') s = [s]"
  proof -
    fix s :: string show "CHR ''/'' \<notin> set s \<Longrightarrow> split_on (CHR ''/'') s = [s]"
      by (induction s) auto
  qed
  with s show ?thesis by (simp add: simple_def segments_def)
qed

lemma contains_self: "contains s s"
proof -
  have "\<And>s. starts_with s s"
  proof -
    fix s :: string show "starts_with s s" by (induction s) auto
  qed
  then show ?thesis by (cases s) auto
qed

lemma simple_not_rec: "simple pat \<Longrightarrow> pat \<noteq> ''**''"
  using contains_self [of "''**''"] by (auto simp: simple_def)

lemma simple_not_abs: "simple pat \<Longrightarrow> \<not> starts_with ''/'' pat"
  by (cases pat) (auto simp: simple_def)

lemma select_one:
  assumes "simple pat" and "walk [] t p = Some (Dir es)" and "distinct (map fst es)"
  shows "set (select fnm t [pat] p) = {p @ [n] | n. n \<in> fst ` set es \<and> name_matches fnm pat n}"
proof (cases "is_wildcard_pattern pat")
  case True
  have "pat \<noteq> ''**''" using assms(1) by (rule simple_not_rec)
  with True assms(2) show ?thesis
    by (auto simp: name_matches_def image_iff)
next
  case False
  have ne: "pat \<noteq> ''**''" using assms(1) by (rule simple_not_rec)
  have "pat \<noteq> ''..''" using assms(1) by (simp add: simple_def)
  then have dd: "''..'' \<notin> set [pat]" by auto
  have "walk [] t (p @ [pat]) = map_of es pat"
    using walk_append [OF dd, of "[]" t p] assms(2) by (simp split: option.splits)
  then have "path_exists t (p @ [pat]) \<longleftrightarrow> pat \<in> fst ` set es"
    by (simp add: path_exists_def map_of_eq_None_iff)
  with False ne show ?thesis by (auto simp: name_matches_def)
qed

lemma set_dedup: "set (dedup xs) = set xs"
  by (simp add: dedup_def)

lemma select_rec:
  "walk [] t p = Some d \<Longrightarrow>
   select fnm t (''**'' # rest) p =
     dedup (concat (map (\<lambda>q. select fnm t rest (p @ q)) (dirs_below [] d)))"
  by simp

lemma select_rec_one:
  assumes "simple pat" and "well_formed t" and "walk [] t root = Some r" and "isdir (Some r)"
  shows "set (select fnm t [''**'', pat] root) =
    {root @ q | q. q \<noteq> [] \<and> lookup r q \<noteq> None \<and> name_matches fnm pat (last q)}"
proof -
  have wfr: "well_formed r" using wf_walk [OF assms(2) _ assms(3)] by simp
  have each: "set (select fnm t [pat] (root @ q)) =
      {root @ q @ [n] | n. lookup r (q @ [n]) \<noteq> None \<and> name_matches fnm pat n}"
    if q: "isdir (lookup r q)" for q
  proof -
    from q obtain es where es: "lookup r q = Some (Dir es)"
      by (cases "lookup r q" rule: isdir.cases) auto
    have nd: "''..'' \<notin> set q" and wfd: "well_formed (Dir es)" using lookup_names [OF wfr es] by auto
    have w: "walk [] t (root @ q) = Some (Dir es)"
      using walk_append [OF nd, of "[]" t root] assms(3) es by simp
    have d: "distinct (map fst es)" using wfd by simp
    have "lookup r (q @ [n]) \<noteq> None \<longleftrightarrow> n \<in> fst ` set es" for n
    proof -
      have "lookup r (q @ [n]) = map_of es n"
        by (simp add: lookup_append es split: option.splits)
      then show ?thesis by (simp add: map_of_eq_None_iff)
    qed
    with select_one [OF assms(1) w d, of fnm] show ?thesis by auto
  qed
  have "set (select fnm t [''**'', pat] root) =
      (\<Union>q \<in> set (dirs_below [] r). set (select fnm t [pat] (root @ q)))"
    using assms(3) by (simp add: select_rec set_dedup del: select.simps)
  also have "set (dirs_below [] r) = {q. isdir (lookup r q)}"
    using dirs_below_set(1) [OF wfr, of "[]"] by simp
  also have "(\<Union>q \<in> {q. isdir (lookup r q)}. set (select fnm t [pat] (root @ q))) =
      (\<Union>q \<in> {q. isdir (lookup r q)}.
         {root @ q @ [n] | n. lookup r (q @ [n]) \<noteq> None \<and> name_matches fnm pat n})"
    using each by simp
  also have "\<dots> = {root @ q | q. q \<noteq> [] \<and> lookup r q \<noteq> None \<and> name_matches fnm pat (last q)}"
  proof (intro set_eqI iffI)
    fix x assume "x \<in> (\<Union>q \<in> {q. isdir (lookup r q)}.
         {root @ q @ [n] | n. lookup r (q @ [n]) \<noteq> None \<and> name_matches fnm pat n})"
    then obtain q n where "x = root @ (q @ [n])" "lookup r (q @ [n]) \<noteq> None"
      "name_matches fnm pat n" by auto
    then show "x \<in> {root @ q | q. q \<noteq> [] \<and> lookup r q \<noteq> None \<and> name_matches fnm pat (last q)}"
      by (intro CollectI exI [of _ "q @ [n]"]) simp
  next
    fix x assume "x \<in> {root @ q | q. q \<noteq> [] \<and> lookup r q \<noteq> None \<and> name_matches fnm pat (last q)}"
    then obtain q' where q': "x = root @ q'" "q' \<noteq> []" "lookup r q' \<noteq> None"
      "name_matches fnm pat (last q')" by blast
    define q n where "q = butlast q'" and "n = last q'"
    have qn: "q' = q @ [n]" using q'(2) by (simp add: q_def n_def)
    have "isdir (lookup r q)"
      using q'(3) unfolding qn lookup_append
      by (cases "lookup r q" rule: isdir.cases) (auto split: option.splits)
    with q' qn show "x \<in> (\<Union>q \<in> {q. isdir (lookup r q)}.
         {root @ q @ [n] | n. lookup r (q @ [n]) \<noteq> None \<and> name_matches fnm pat n})"
      by auto
  qed
  finally show ?thesis .
qed

lemma rstrip_sep_id: "\<not> endswith_sep s \<Longrightarrow> rstrip_sep s = s"
proof (cases s rule: rev_cases)
  case Nil
  then show ?thesis by (simp add: rstrip_sep_def)
next
  case (snoc ys y)
  assume "\<not> endswith_sep s"
  with snoc show ?thesis by (simp add: rstrip_sep_def endswith_sep_def)
qed

lemma under_file: "\<not> isdir (walk [] t root) \<Longrightarrow> q \<noteq> [] \<Longrightarrow> under t root q = None"
proof -
  assume a: "\<not> isdir (walk [] t root)" and q: "q \<noteq> []"
  from q obtain x xs where "q = x # xs" by (cases q) auto
  with a show ?thesis
    by (cases "walk [] t root" rule: isdir.cases) (auto simp: under_def)
qed

lemma rglob_simple:
  assumes "simple pat" and "well_formed t"
  shows "\<exists>items. rglob fnm t root pat = Inr items \<and>
     set items = {root @ q | q. q \<noteq> [] \<and> under t root q \<noteq> None \<and> name_matches fnm pat (last q)}"
proof -
  have seg: "segments pat = [pat]" using assms(1) by (rule segments_simple)
  have ok: "\<not> starts_with ''/'' pat" using assms(1) by (rule simple_not_abs)
  have ns: "\<not> (pat \<noteq> ''**'' \<and> contains ''**'' pat)" using assms(1) by (simp add: simple_def)
  have r: "rglob fnm t root pat =
      Inr (if is_dir t root then select fnm t [''**'', pat] root else [])"
    using ok ns by (simp add: rglob_def seg del: select.simps)
  show ?thesis
  proof (cases "is_dir t root")
    case True
    then obtain d where d: "walk [] t root = Some d" "isdir (Some d)"
      by (cases "walk [] t root") (auto simp: is_dir_def)
    have "set (select fnm t [''**'', pat] root) =
        {root @ q | q. q \<noteq> [] \<and> lookup d q \<noteq> None \<and> name_matches fnm pat (last q)}"
      using select_rec_one [OF assms d] .
    with r True d show ?thesis by (simp add: under_def del: select.simps)
  next
    case False
    then have "\<And>q. q \<noteq> [] \<Longrightarrow> under t root q = None"
      using under_file by (simp add: is_dir_def)
    with r False show ?thesis by auto
  qed
qed

lemma under_walk:
  assumes "well_formed t" and "under t root q \<noteq> None"
  shows "walk [] t (root @ q) = under t root q"
proof -
  from assms(2) obtain d where d: "walk [] t root = Some d" "lookup d q \<noteq> None"
    by (auto simp: under_def split: option.splits)
  have "well_formed d" using wf_walk [OF assms(1) _ d(1)] by simp
  with d(2) have "''..'' \<notin> set q" using lookup_names by blast
  with d(1) show ?thesis by (simp add: walk_append under_def)
qed

lemma relative_to_append: "q \<noteq> [] \<Longrightarrow> relative_to root (root @ q) = join ''/'' q"
  by (simp add: relative_to_def)

lemma found_dirs:
  assumes "well_formed t"
    and "set items = {root @ q | q. q \<noteq> [] \<and> under t root q \<noteq> None \<and> name_matches fnm pat (last q)}"
  shows "set (map (relative_to root) (filter (is_dir t) items)) =
     {join ''/'' q | q. q \<noteq> [] \<and> isdir (under t root q) \<and> name_matches fnm pat (last q)}"
    (is "?L = ?R")
proof (intro set_eqI iffI)
  fix s assume "s \<in> ?L"
  then obtain item where i: "item \<in> set items" "is_dir t item" "s = relative_to root item"
    by auto
  with assms(2) obtain q where q: "item = root @ q" "q \<noteq> []" "under t root q \<noteq> None"
    "name_matches fnm pat (last q)" by auto
  have "isdir (under t root q)" using i(2) under_walk [OF assms(1) q(3)] q(1)
    by (simp add: is_dir_def)
  with q i(3) show "s \<in> ?R" by (auto simp: relative_to_append)
next
  fix s assume "s \<in> ?R"
  then obtain q where q: "s = join ''/'' q" "q \<noteq> []" "isdir (under t root q)"
    "name_matches fnm pat (last q)" by auto
  have nn: "under t root q \<noteq> None" using q(3) by (cases "under t root q") auto
  have "root @ q \<in> set items" using assms(2) q nn by auto
  moreover have "is_dir t (root @ q)" using under_walk [OF assms(1) nn] q(3)
    by (simp add: is_dir_def)
  ultimately have "relative_to root (root @ q) \<in> ?L" by auto
  with q show "s \<in> ?L" by (simp add: relative_to_append)
qed

lemma found_files:
  assumes "well_formed t"
    and "set items = {root @ q | q. q \<noteq> [] \<and> under t root q \<noteq> None \<and> name_matches fnm pat (last q)}"
  shows "set (map (relative_to root) (filter (is_file t) items)) =
     {join ''/'' q | q. q \<noteq> [] \<and> isfile (under t root q) \<and> name_matches fnm pat (last q)}"
    (is "?L = ?R")
proof (intro set_eqI iffI)
  fix s assume "s \<in> ?L"
  then obtain item where i: "item \<in> set items" "is_file t item" "s = relative_to root item"
    by auto
  with assms(2) obtain q where q: "item = root @ q" "q \<noteq> []" "under t root q \<noteq> None"
    "name_matches fnm pat (last q)" by auto
  have "isfile (under t root q)" using i(2) under_walk [OF assms(1) q(3)] q(1)
    by (simp add: is_file_def)
  with q i(3) show "s \<in> ?R" by (auto simp: relative_to_append)
next
  fix s assume "s \<in> ?R"
  then obtain q where q: "s = join ''/'' q" "q \<noteq> []" "isfile (under t root q)"
    "name_matches fnm pat (last q)" by auto
  have nn: "under t root q \<noteq> None" using q(3) by (cases "under t root q") auto
  have "root @ q \<in> set items" using assms(2) q nn by auto
  moreover have "is_file t (root @ q)" using under_walk [OF assms(1) nn] q(3)
    by (simp add: is_file_def)
  ultimately have "relative_to root (root @ q) \<in> ?L" by auto
  with q show "s \<in> ?L" by (simp add: relative_to_append)
qed

lemma custom_loop_simple:
  assumes "well_formed t" and "\<forall>pattern \<in> set ps. simple (rstrip_sep pattern)"
  shows "\<exists>found. custom_loop fnm t root ps acc = Inr found \<and>
     set found = set acc \<union> {join ''/'' q | q. \<exists>pattern \<in> set ps. matches fnm t root pattern q}"
  using assms(2)
proof (induction ps arbitrary: acc)
  case Nil
  show ?case by simp
next
  case (Cons pattern ps)
  have s: "simple (rstrip_sep pattern)" using Cons.prems by simp
  have rest: "\<forall>pattern \<in> set ps. simple (rstrip_sep pattern)" using Cons.prems by simp
  show ?case
  proof (cases "endswith_sep pattern")
    case True
    obtain items where i: "rglob fnm t root (rstrip_sep pattern) = Inr items"
      "set items = {root @ q | q. q \<noteq> [] \<and> under t root q \<noteq> None
         \<and> name_matches fnm (rstrip_sep pattern) (last q)}"
      using rglob_simple [OF s assms(1)] by blast
    have m: "set (map (relative_to root) (filter (is_dir t) items)) =
        {join ''/'' q | q. matches fnm t root pattern q}"
      using found_dirs [OF assms(1) i(2)] True by (simp add: matches_def)
    obtain found where f: "custom_loop fnm t root ps
          (acc @ map (relative_to root) (filter (is_dir t) items)) = Inr found"
      "set found = set (acc @ map (relative_to root) (filter (is_dir t) items)) \<union>
         {join ''/'' q | q. \<exists>pattern \<in> set ps. matches fnm t root pattern q}"
      using Cons.IH [OF rest] by blast
    have "custom_loop fnm t root (pattern # ps) acc = Inr found"
      using True i(1) f(1) by simp
    moreover have "set found = set acc \<union>
        {join ''/'' q | q. \<exists>p \<in> set (pattern # ps). matches fnm t root p q}"
      using f(2) m by auto
    ultimately show ?thesis by blast
  next
    case False
    have s': "simple pattern" using s rstrip_sep_id [OF False] by simp
    obtain items where i: "rglob fnm t root pattern = Inr items"
      "set items = {root @ q | q. q \<noteq> [] \<and> under t root q \<noteq> None
         \<and> name_matches fnm pattern (last q)}"
      using rglob_simple [OF s' assms(1)] by blast
    have m: "set (map (relative_to root) (filter (is_file t) items)) =
        {join ''/'' q | q. matches fnm t root pattern q}"
      using found_files [OF assms(1) i(2)] False by (simp add: matches_def)
    obtain found where f: "custom_loop fnm t root ps
          (acc @ map (relative_to root) (filter (is_file t) items)) = Inr found"
      "set found = set (acc @ map (relative_to root) (filter (is_file t) items)) \<union>
         {join ''/'' q | q. \<exists>pattern \<in> set ps. matches fnm t root pattern q}"
      using Cons.IH [OF rest] by blast
    have "custom_loop fnm t root (pattern # ps) acc = Inr found"
      using False i(1) f(1) by simp
    moreover have "set found = set acc \<union>
        {join ''/'' q | q. \<exists>p \<in> set (pattern # ps). matches fnm t root p q}"
      using f(2) m by auto
    ultimately show ?thesis by blast
  qed
qed

text \<open>
  C6, as the code has it. On a well-formed tree, for patterns that are one segment each
  once the trailing separators are taken off, the matcher returns exactly the relative
  paths that match at least one pattern: directories at any depth whose name matches a
  pattern written with a trailing separator, files at any depth whose name matches a
  pattern written without. (When the lesson directory does not exist both sides are
  empty.)
\<close>

theorem check_custom_changes_matches:
  assumes "well_formed (tree m)"
    and "\<forall>pattern \<in> set (preservation_patterns (metadata m)). simple (rstrip_sep pattern)"
  shows "\<exists>found. check_custom_changes fnm m lesson = Inr found \<and>
     set found = {join ''/'' q | q.
        \<exists>pattern \<in> set (preservation_patterns (metadata m)).
          matches fnm (tree m) (path lesson) pattern q}"
proof (cases "exists (tree m) lesson")
  case True
  with custom_loop_simple [OF assms, of fnm "path lesson" "[]"] show ?thesis
    by (simp add: check_custom_changes_def)
next
  case False
  then have "\<not> isdir (walk [] (tree m) (path lesson))"
    by (auto simp: exists_def is_dir_def path_exists_def)
  then have "\<And>pattern q. \<not> matches fnm (tree m) (path lesson) pattern q"
    using under_file by (auto simp: matches_def)
  with False show ?thesis by (simp add: check_custom_changes_def)
qed

theorem check_custom_changes_matches_witness:
  "well_formed (tree (example_manager ''2026-11-01'' [''*.local.*'', ''notes-*/'']))
   \<and> preservation_patterns (metadata (example_manager ''2026-11-01''
         [''*.local.*'', ''notes-*/''])) = [''*.local.*'', ''notes-*/'']
   \<and> simple (rstrip_sep ''*.local.*'') \<and> simple (rstrip_sep ''notes-*/'')
   \<and> check_custom_changes glob (example_manager ''2026-11-01'' [''*.local.*'', ''notes-*/''])
        (example_lesson ''l1'' ''2026-11-01'') = Inr [''intro.local.ipynb'', ''notes-personal'']
   \<and> {join ''/'' q | q.
        \<exists>pattern \<in> set (preservation_patterns
            (metadata (example_manager ''2026-11-01'' [''*.local.*'', ''notes-*/'']))).
          matches glob (tree (example_manager ''2026-11-01'' [''*.local.*'', ''notes-*/'']))
            (path (example_lesson ''l1'' ''2026-11-01'')) pattern q}
      = {''intro.local.ipynb'', ''notes-personal''}"
proof -
  let ?m = "example_manager ''2026-11-01'' [''*.local.*'', ''notes-*/'']"
  let ?l = "example_lesson ''l1'' ''2026-11-01''"
  have h1: "well_formed (tree ?m)" by code_simp
  have h2: "\<forall>pattern \<in> set (preservation_patterns (metadata ?m)). simple (rstrip_sep pattern)"
    by code_simp
  have r: "check_custom_changes glob ?m ?l = Inr [''intro.local.ipynb'', ''notes-personal'']"
    by code_simp
  from check_custom_changes_matches [OF h1 h2, of glob ?l] r
  have "{join ''/'' q | q. \<exists>pattern \<in> set (preservation_patterns (metadata ?m)).
          matches glob (tree ?m) (path ?l) pattern q}
      = set [''intro.local.ipynb'', ''notes-personal'']"
    by auto
  moreover have "preservation_patterns (metadata ?m) = [''*.local.*'', ''notes-*/'']"
    by (simp add: example_manager_def example_catalog_def)
  moreover have "simple (rstrip_sep ''*.local.*'')" "simple (rstrip_sep ''notes-*/'')"
    by code_simp+
  ultimately show ?thesis using h1 r by simp
qed

text \<open>
  C6 as stated, for every pattern set, fails: a pattern that starts with the separator
  makes \<^verbatim>\<open>rglob\<close> raise \<^verbatim>\<open>NotImplementedError\<close>, and the matcher returns no set at all.
\<close>

theorem check_custom_changes_rooted_pattern:
  "check_custom_changes glob (example_manager ''2026-11-01'' [''/my-notes.md''])
     (example_lesson ''l1'' ''2026-11-01'') = Inl NotImplementedError"
  by code_simp

subsection \<open>Two listings of one tree\<close>

lemma same_map_of:
  assumes "same (Dir es) (Dir es')"
  shows "rel_option same (map_of es x) (map_of es' x)"
proof (cases "map_of es x")
  case None
  then have "x \<notin> fst ` set es'" using assms by (simp add: map_of_eq_None_iff)
  then have "map_of es' x = None" by (simp add: map_of_eq_None_iff)
  with None show ?thesis by simp
next
  case (Some c)
  then have "x \<in> fst ` set es'" using assms by (force dest: map_of_SomeD)
  then obtain c' where c': "map_of es' x = Some c'"
    by (cases "map_of es' x") (auto simp: map_of_eq_None_iff)
  have "(x, c) \<in> set es" "(x, c') \<in> set es'" using Some c' by (auto dest: map_of_SomeD)
  with assms have "same c c'" by force
  with Some c' show ?thesis by simp
qed

lemma same_walk:
  "same t t' \<Longrightarrow> list_all2 same up up' \<Longrightarrow> rel_option same (walk up t p) (walk up' t' p)"
proof (induction p arbitrary: t t' up up')
  case Nil
  then show ?case by simp
next
  case (Cons x xs)
  show ?case
  proof (cases t)
    case (File c)
    with Cons.prems(1) obtain c' where "t' = File c'" by (cases t') auto
    with File show ?thesis by simp
  next
    case (Dir es)
    with Cons.prems(1) obtain es' where t': "t' = Dir es'" by (cases t') auto
    show ?thesis
    proof (cases "x = ''..''")
      case True
      show ?thesis
      proof (cases up)
        case Nil
        with Cons.prems(2) have "up' = []" by simp
        with Nil True Dir t' Cons.IH [OF Cons.prems(1), of "[]" "[]"] show ?thesis by simp
      next
        case (Cons u us)
        with Cons.prems(2) obtain u' us' where u': "up' = u' # us'" "same u u'" "list_all2 same us us'"
          by (auto simp: list_all2_Cons1)
        with Cons True Dir t' Cons.IH [OF u'(2) u'(3)] show ?thesis by simp
      qed
    next
      case False
      have r: "rel_option same (map_of es x) (map_of es' x)"
        using same_map_of Cons.prems(1) Dir t' by blast
      show ?thesis
      proof (cases "map_of es x")
        case None
        with r have "map_of es' x = None" by (cases "map_of es' x") auto
        with None False Dir t' show ?thesis by simp
      next
        case (Some c)
        with r obtain c' where c': "map_of es' x = Some c'" "same c c'"
          by (cases "map_of es' x") auto
        have "list_all2 same (Dir es # up) (Dir es' # up')"
          using Cons.prems Dir t' by simp
        with Cons.IH [OF c'(2)] have "rel_option same (walk (Dir es # up) c xs) (walk (Dir es' # up') c' xs)"
          by blast
        with Some c' False Dir t' show ?thesis by simp
      qed
    qed
  qed
qed

lemma same_isdir_node: "same x y \<Longrightarrow> isdir (Some x) = isdir (Some y)"
  by (cases x; cases y) simp_all

lemma same_isfile_node: "same x y \<Longrightarrow> isfile (Some x) = isfile (Some y)"
  by (cases x; cases y) simp_all

lemma same_isdir: "rel_option same a b \<Longrightarrow> isdir a = isdir b"
  by (cases a; cases b) (simp_all add: same_isdir_node)

lemma same_isfile: "rel_option same a b \<Longrightarrow> isfile a = isfile b"
  by (cases a; cases b) (simp_all add: same_isfile_node)

lemma same_lookup: "same t t' \<Longrightarrow> rel_option same (lookup t p) (lookup t' p)"
proof (induction p arbitrary: t t')
  case Nil
  then show ?case by simp
next
  case (Cons x xs)
  show ?case
  proof (cases t)
    case (File c)
    with Cons.prems(1) obtain c' where "t' = File c'" by (cases t') auto
    with File show ?thesis by simp
  next
    case (Dir es)
    with Cons.prems(1) obtain es' where t': "t' = Dir es'" by (cases t') auto
    have r: "rel_option same (map_of es x) (map_of es' x)"
      using same_map_of Cons.prems(1) Dir t' by blast
    show ?thesis
    proof (cases "map_of es x")
      case None
      with r have "map_of es' x = None" by (cases "map_of es' x") auto
      with None Dir t' show ?thesis by simp
    next
      case (Some c)
      with r obtain c' where c': "map_of es' x = Some c'" "same c c'"
        by (cases "map_of es' x") auto
      with Some Dir t' Cons.IH [OF c'(2)] show ?thesis by simp
    qed
  qed
qed

lemma same_dirs_below:
  assumes "well_formed d" and "well_formed d'" and "same d d'"
  shows "set (dirs_below p d) = set (dirs_below p d')"
proof -
  have "isdir (lookup d q) = isdir (lookup d' q)" for q
    using same_lookup [OF assms(3)] same_isdir by blast
  then show ?thesis
    using dirs_below_set(1) [OF assms(1)] dirs_below_set(1) [OF assms(2)] by simp
qed

lemma same_select:
  assumes "well_formed t" and "well_formed t'" and "same t t'"
  shows "set (select fnm t parts p) = set (select fnm t' parts p)"
proof (induction parts arbitrary: p)
  case Nil
  show ?case by simp
next
  case (Cons part rest)
  have w: "rel_option same (walk [] t q) (walk [] t' q)" for q
    using same_walk [OF assms(3)] by simp
  show ?case
  proof (cases "part = ''**''")
    case True
    show ?thesis
    proof (cases "walk [] t p")
      case None
      with w [of p] have "walk [] t' p = None" by (cases "walk [] t' p") auto
      with None True show ?thesis by simp
    next
      case (Some d)
      with w [of p] obtain d' where d': "walk [] t' p = Some d'" "same d d'"
        by (cases "walk [] t' p") auto
      have "well_formed d" using wf_walk [OF assms(1) _ Some] by simp
      moreover have "well_formed d'" using wf_walk [OF assms(2) _ d'(1)] by simp
      ultimately have "set (dirs_below [] d) = set (dirs_below [] d')"
        using same_dirs_below d'(2) by blast
      with Cons.IH show ?thesis
        by (simp add: select_rec [OF Some] select_rec [OF d'(1)] set_dedup True del: select.simps)
    qed
  next
    case False
    show ?thesis
    proof (cases "is_wildcard_pattern part")
      case True
      show ?thesis
      proof (cases "walk [] t p")
        case None
        with w [of p] have "walk [] t' p = None" by (cases "walk [] t' p") auto
        with None True False show ?thesis by simp
      next
        case (Some d)
        with w [of p] obtain d' where d': "walk [] t' p = Some d'" "same d d'"
          by (cases "walk [] t' p") auto
        show ?thesis
        proof (cases d)
          case (File c)
          with d'(2) obtain c' where "d' = File c'" by (cases d') auto
          with File Some d'(1) True False show ?thesis by simp
        next
          case (Dir es)
          with d'(2) obtain es' where es': "d' = Dir es'" by (cases d') auto
          let ?f = "\<lambda>t e. if (rest = [] \<or> isdir (Some (snd e))) \<and> fnm part (fst e)
                           then select fnm t rest (p @ [fst e]) else []"
          have names: "fst ` set es = fst ` set es'"
            using d'(2) Dir es' by simp
          have kinds: "isdir (Some (snd e)) = isdir (Some (snd e'))"
            if "e \<in> set es" "e' \<in> set es'" "fst e = fst e'" for e e'
          proof -
            have "same (snd e) (snd e')" using d'(2) Dir es' that by simp
            then show ?thesis by (rule same_isdir_node)
          qed
          have ih: "set (select fnm t rest q) = set (select fnm t' rest q)" for q
            using Cons.IH .
          have "(\<Union>e \<in> set es. set (?f t e)) = (\<Union>e \<in> set es'. set (?f t' e))"
          proof (intro equalityI subsetI)
            fix x assume "x \<in> (\<Union>e \<in> set es. set (?f t e))"
            then obtain e where e: "e \<in> set es" "x \<in> set (?f t e)" by blast
            from e(1) names have "fst e \<in> fst ` set es'" by blast
            then obtain e' where e': "e' \<in> set es'" "fst e = fst e'" by blast
            have k: "isdir (Some (snd e)) = isdir (Some (snd e'))"
              using kinds [OF e(1) e'] .
            have "?f t' e' = (if (rest = [] \<or> isdir (Some (snd e))) \<and> fnm part (fst e)
                           then select fnm t' rest (p @ [fst e]) else [])"
              using k e'(2) by simp
            with e(2) ih have "x \<in> set (?f t' e')" by (simp split: if_splits)
            with e'(1) show "x \<in> (\<Union>e \<in> set es'. set (?f t' e))" by blast
          next
            fix x assume "x \<in> (\<Union>e \<in> set es'. set (?f t' e))"
            then obtain e' where e': "e' \<in> set es'" "x \<in> set (?f t' e')" by blast
            from e'(1) names have "fst e' \<in> fst ` set es" by blast
            then obtain e where e: "e \<in> set es" "fst e' = fst e" by blast
            have k: "isdir (Some (snd e)) = isdir (Some (snd e'))"
              using kinds [OF e(1) e'(1)] e(2) by simp
            have "?f t e = (if (rest = [] \<or> isdir (Some (snd e'))) \<and> fnm part (fst e')
                           then select fnm t rest (p @ [fst e']) else [])"
              using k e(2) by simp
            with e'(2) ih have "x \<in> set (?f t e)" by (simp split: if_splits)
            with e(1) show "x \<in> (\<Union>e \<in> set es. set (?f t e))" by blast
          qed
          then have U: "(\<Union>e \<in> set es. set (?f t e)) = (\<Union>e \<in> set es'. set (?f t' e))" .
          have sL: "set (select fnm t (part # rest) p) = (\<Union>e \<in> set es. set (?f t e))"
            using Some Dir True False by auto
          have sR: "set (select fnm t' (part # rest) p) = (\<Union>e \<in> set es'. set (?f t' e))"
            using d'(1) es' True False by auto
          show ?thesis by (simp only: sL sR U)
        qed
      qed
    next
      case nw: False
      have "path_exists t (p @ [part]) = path_exists t' (p @ [part])"
        using w [of "p @ [part]"]
        by (cases "walk [] t (p @ [part])"; cases "walk [] t' (p @ [part])")
           (auto simp: path_exists_def)
      moreover have "is_dir t (p @ [part]) = is_dir t' (p @ [part])"
        using w [of "p @ [part]"] same_isdir by (simp add: is_dir_def)
      ultimately show ?thesis using False nw Cons.IH by simp
    qed
  qed
qed

lemma same_is_dir:
  assumes "same t t'"
  shows "is_dir t p = is_dir t' p"
  using same_walk [OF assms, of "[]" "[]" p] same_isdir by (simp add: is_dir_def)

lemma same_is_file:
  assumes "same t t'"
  shows "is_file t p = is_file t' p"
  using same_walk [OF assms, of "[]" "[]" p] same_isfile by (simp add: is_file_def)

lemma same_exists:
  assumes "same t t'"
  shows "exists t l = exists t' l"
proof -
  have "rel_option same (walk [] t (path l)) (walk [] t' (path l))"
    using same_walk [OF assms, of "[]" "[]"] by simp
  then have "path_exists t (path l) = path_exists t' (path l)"
    by (cases "walk [] t (path l)"; cases "walk [] t' (path l)") (auto simp: path_exists_def)
  with same_is_dir [OF assms] show ?thesis by (simp add: exists_def)
qed

lemma same_rglob:
  assumes "well_formed t" and "well_formed t'" and "same t t'"
  shows "map_sum id set (rglob fnm t root pattern) = map_sum id set (rglob fnm t' root pattern)"
proof -
  have s: "set (select fnm t (''**'' # segments pattern) root) =
           set (select fnm t' (''**'' # segments pattern) root)"
    using same_select [OF assms] .
  have d: "is_dir t root = is_dir t' root"
    using same_is_dir [OF assms(3)] .
  show ?thesis
    unfolding rglob_def using s d by (auto simp del: select.simps)
qed

lemma same_custom_loop:
  assumes "well_formed t" and "well_formed t'" and "same t t'"
  shows "set acc = set acc' \<Longrightarrow>
    map_sum id set (custom_loop fnm t root ps acc) = map_sum id set (custom_loop fnm t' root ps acc')"
proof (induction ps arbitrary: acc acc')
  case Nil
  then show ?case by simp
next
  case (Cons pattern ps)
  define pat where "pat = (if endswith_sep pattern then rstrip_sep pattern else pattern)"
  have r: "map_sum id set (rglob fnm t root pat) = map_sum id set (rglob fnm t' root pat)"
    using same_rglob [OF assms] .
  show ?case
  proof (cases "rglob fnm t root pat")
    case (Inl err)
    with r have "rglob fnm t' root pat = Inl err" by (cases "rglob fnm t' root pat") auto
    with Inl show ?thesis by (simp add: pat_def split: if_splits)
  next
    case (Inr items)
    with r obtain items' where i': "rglob fnm t' root pat = Inr items'" "set items = set items'"
      by (cases "rglob fnm t' root pat") auto
    have d: "set (acc @ map (relative_to root) (filter (is_dir t) items)) =
             set (acc' @ map (relative_to root) (filter (is_dir t') items'))"
      using Cons.prems i'(2) same_is_dir [OF assms(3)] by auto
    have f: "set (acc @ map (relative_to root) (filter (is_file t) items)) =
             set (acc' @ map (relative_to root) (filter (is_file t') items'))"
      using Cons.prems i'(2) same_is_file [OF assms(3)] by auto
    show ?thesis
    proof (cases "endswith_sep pattern")
      case True
      with Inr i'(1) Cons.IH [OF d] show ?thesis by (simp add: pat_def)
    next
      case False
      with Inr i'(1) Cons.IH [OF f] show ?thesis by (simp add: pat_def)
    qed
  qed
qed

text \<open>
  C8. Two runs of the matcher with the same patterns on the same directory tree return
  the same set of paths, or raise the same exception: the outcome depends on nothing
  else in the state of the manager, and not on the order in which the directories list
  their entries (which decides only the order of the list returned). The matcher writes
  nothing: it returns no state.
\<close>

theorem check_custom_changes_deterministic:
  assumes "well_formed (tree m)" and "well_formed (tree m')" and "same (tree m) (tree m')"
    and "preservation_patterns (metadata m') = preservation_patterns (metadata m)"
  shows "map_sum id set (check_custom_changes fnm m' lesson) =
         map_sum id set (check_custom_changes fnm m lesson)"
proof -
  have e: "exists (tree m) lesson = exists (tree m') lesson"
    using same_exists [OF assms(3)] .
  have "map_sum id set (custom_loop fnm (tree m) (path lesson)
            (preservation_patterns (metadata m)) []) =
        map_sum id set (custom_loop fnm (tree m') (path lesson)
            (preservation_patterns (metadata m)) [])"
    using same_custom_loop [OF assms(1,2,3), of "[]" "[]"] by simp
  with e assms(4) show ?thesis by (simp add: check_custom_changes_def)
qed

theorem check_custom_changes_deterministic_witness:
  "well_formed (tree (example_manager ''2026-11-01'' [''*.ipynb'', ''notes-*/'']))
   \<and> well_formed example_tree_relisted
   \<and> same (tree (example_manager ''2026-11-01'' [''*.ipynb'', ''notes-*/''])) example_tree_relisted
   \<and> check_custom_changes glob (example_manager ''2026-11-01'' [''*.ipynb'', ''notes-*/''])
        (example_lesson ''l1'' ''2026-11-01'')
      = Inr [''intro.ipynb'', ''intro.local.ipynb'', ''notes-personal'']
   \<and> check_custom_changes glob
        ((example_manager ''2026-11-04'' [''*.ipynb'', ''notes-*/''])\<lparr>tree := example_tree_relisted\<rparr>)
        (example_lesson ''l1'' ''2026-11-01'')
      = Inr [''intro.local.ipynb'', ''intro.ipynb'', ''notes-personal'']
   \<and> map_sum id set (check_custom_changes glob
        ((example_manager ''2026-11-04'' [''*.ipynb'', ''notes-*/''])\<lparr>tree := example_tree_relisted\<rparr>)
        (example_lesson ''l1'' ''2026-11-01''))
      = map_sum id set (check_custom_changes glob
        (example_manager ''2026-11-01'' [''*.ipynb'', ''notes-*/''])
        (example_lesson ''l1'' ''2026-11-01''))"
proof -
  let ?m = "example_manager ''2026-11-01'' [''*.ipynb'', ''notes-*/'']"
  let ?m' = "(example_manager ''2026-11-04'' [''*.ipynb'', ''notes-*/''])\<lparr>tree := example_tree_relisted\<rparr>"
  let ?l = "example_lesson ''l1'' ''2026-11-01''"
  have h1: "well_formed (tree ?m)" by code_simp
  have h2: "well_formed (tree ?m')" by code_simp
  have h3: "same (tree ?m) (tree ?m')" by code_simp
  have h4: "preservation_patterns (metadata ?m') = preservation_patterns (metadata ?m)"
    by code_simp
  have r: "check_custom_changes glob ?m ?l
      = Inr [''intro.ipynb'', ''intro.local.ipynb'', ''notes-personal'']"
    by code_simp
  have r': "check_custom_changes glob ?m' ?l
      = Inr [''intro.local.ipynb'', ''intro.ipynb'', ''notes-personal'']"
    by code_simp
  have t: "tree ?m' = example_tree_relisted" by simp
  have d: "map_sum id set (check_custom_changes glob ?m' ?l)
      = map_sum id set (check_custom_changes glob ?m ?l)"
    using check_custom_changes_deterministic [OF h1 h2 h3 h4] .
  show ?thesis
    using h1 h2 h3 r r' t d by simp
qed

end
